theory Spec2Isabelle
  imports Main "HOL-Library.Multiset"
begin

section \<open>Shared protocol types (shared/src/protocol.ts)\<close>

text \<open>
  A JavaScript string is a sequence of UTF-16 code units; every kana of the tile table
  is one code unit, written here by its code point. The empty string is the blank tile's
  character.
\<close>

type_synonym jstring = "int list"

record Tile =
  id_t :: int
  char_t :: jstring
  points :: int
  isBlank :: bool
  assignedChar :: "jstring option"

datatype BonusType = NONE | DL | TL | DW | TW | START

record TilePlacement =
  row :: int
  col :: int
  tileId :: int
  assignedChar_p :: "jstring option"

datatype GamePhase = waiting | playing | finished

datatype Action = play | exchange_a | pass_a

record TurnRecord =
  playerId :: string
  playerName :: string
  action :: Action
  words :: "(jstring \<times> int) list option"
  totalScore :: int

text \<open>Every \<^verbatim>\<open>throw new Error(...)\<close> of the server, one constructor per message.\<close>

datatype error =
    NoTilesPlaced
  | TileNotInRack
  | OutOfBounds
  | CellOccupied int int
  | BlankNeedsChar
  | NotInLine
  | GapBetweenTiles
  | FirstMoveOffCenter
  | FirstMoveTooShort
  | NotAdjacent
  | NoWordFormed
  | NotInDictionary jstring
  | GameNotStarted
  | NotYourTurn
  | NoExchangeTiles
  | BagTooSmall
  | NeedTwoPlayers
  | JoinWhilePlaying
  | RoomFull
  | AlreadyJoined
  | TypeError

section \<open>Tile table and constants (server/src/tiles.ts)\<close>

record TileDef =
  dchar :: jstring
  dpoints :: int
  dcount :: nat

definition TILE_DEFINITIONS :: "TileDef list" where
  "TILE_DEFINITIONS = [
   \<lparr>dchar = [0x3044], dpoints = 1, dcount = 5\<rparr>,
   \<lparr>dchar = [0x3046], dpoints = 1, dcount = 5\<rparr>,
   \<lparr>dchar = [0x304B], dpoints = 1, dcount = 4\<rparr>,
   \<lparr>dchar = [0x3057], dpoints = 1, dcount = 4\<rparr>,
   \<lparr>dchar = [0x305F], dpoints = 1, dcount = 4\<rparr>,
   \<lparr>dchar = [0x3066], dpoints = 1, dcount = 4\<rparr>,
   \<lparr>dchar = [0x306E], dpoints = 1, dcount = 4\<rparr>,
   \<lparr>dchar = [0x306B], dpoints = 1, dcount = 4\<rparr>,
   \<lparr>dchar = [0x306F], dpoints = 1, dcount = 3\<rparr>,
   \<lparr>dchar = [0x3093], dpoints = 1, dcount = 3\<rparr>,
   \<lparr>dchar = [0x304F], dpoints = 1, dcount = 3\<rparr>,
   \<lparr>dchar = [0x3053], dpoints = 1, dcount = 3\<rparr>,
   \<lparr>dchar = [0x3068], dpoints = 1, dcount = 3\<rparr>,
   \<lparr>dchar = [0x306A], dpoints = 1, dcount = 3\<rparr>,
   \<lparr>dchar = [0x308A], dpoints = 1, dcount = 3\<rparr>,
   \<lparr>dchar = [0x308B], dpoints = 1, dcount = 3\<rparr>,
   \<lparr>dchar = [0x304D], dpoints = 2, dcount = 3\<rparr>,
   \<lparr>dchar = [0x3042], dpoints = 2, dcount = 3\<rparr>,
   \<lparr>dchar = [0x304A], dpoints = 2, dcount = 3\<rparr>,
   \<lparr>dchar = [0x3051], dpoints = 2, dcount = 2\<rparr>,
   \<lparr>dchar = [0x3055], dpoints = 2, dcount = 2\<rparr>,
   \<lparr>dchar = [0x3059], dpoints = 2, dcount = 2\<rparr>,
   \<lparr>dchar = [0x305B], dpoints = 2, dcount = 2\<rparr>,
   \<lparr>dchar = [0x305D], dpoints = 2, dcount = 2\<rparr>,
   \<lparr>dchar = [0x3061], dpoints = 2, dcount = 2\<rparr>,
   \<lparr>dchar = [0x3064], dpoints = 2, dcount = 2\<rparr>,
   \<lparr>dchar = [0x307E], dpoints = 2, dcount = 2\<rparr>,
   \<lparr>dchar = [0x307F], dpoints = 2, dcount = 2\<rparr>,
   \<lparr>dchar = [0x3082], dpoints = 2, dcount = 2\<rparr>,
   \<lparr>dchar = [0x3088], dpoints = 2, dcount = 2\<rparr>,
   \<lparr>dchar = [0x3048], dpoints = 2, dcount = 2\<rparr>,
   \<lparr>dchar = [0x308C], dpoints = 2, dcount = 2\<rparr>,
   \<lparr>dchar = [0x308F], dpoints = 3, dcount = 2\<rparr>,
   \<lparr>dchar = [0x3075], dpoints = 3, dcount = 2\<rparr>,
   \<lparr>dchar = [0x3089], dpoints = 3, dcount = 2\<rparr>,
   \<lparr>dchar = [0x3080], dpoints = 3, dcount = 1\<rparr>,
   \<lparr>dchar = [0x3081], dpoints = 3, dcount = 1\<rparr>,
   \<lparr>dchar = [0x308D], dpoints = 3, dcount = 1\<rparr>,
   \<lparr>dchar = [0x30FC], dpoints = 3, dcount = 2\<rparr>,
   \<lparr>dchar = [0x306C], dpoints = 4, dcount = 1\<rparr>,
   \<lparr>dchar = [0x306D], dpoints = 4, dcount = 1\<rparr>,
   \<lparr>dchar = [0x3072], dpoints = 4, dcount = 1\<rparr>,
   \<lparr>dchar = [0x307B], dpoints = 4, dcount = 1\<rparr>,
   \<lparr>dchar = [0x3084], dpoints = 4, dcount = 1\<rparr>,
   \<lparr>dchar = [0x3086], dpoints = 4, dcount = 1\<rparr>,
   \<lparr>dchar = [], dpoints = 0, dcount = 2\<rparr>
  ]"

definition RACK_SIZE :: int where "RACK_SIZE = 7"
definition BOARD_SIZE :: int where "BOARD_SIZE = 15"
definition BINGO_BONUS :: int where "BINGO_BONUS = 50"

section \<open>The tile bag (TileBag.ts)\<close>

record TileBag =
  tiles :: "Tile list"
  nextId :: int

text \<open>
  The inner loop of \<^verbatim>\<open>init\<close>: push \<^verbatim>\<open>def.count\<close> tiles of one definition, each with
  the next identity.
\<close>

fun pushTiles :: "TileDef \<Rightarrow> nat \<Rightarrow> TileBag \<Rightarrow> TileBag" where
  "pushTiles d 0 b = b"
| "pushTiles d (Suc n) b =
     pushTiles d n
       \<lparr>tiles = tiles b @ [\<lparr>id_t = nextId b, char_t = dchar d, points = dpoints d,
                              isBlank = (dchar d = []), assignedChar = None\<rparr>],
        nextId = nextId b + 1\<rparr>"

fun initLoop :: "TileDef list \<Rightarrow> TileBag \<Rightarrow> TileBag" where
  "initLoop [] b = b"
| "initLoop (d # ds) b = initLoop ds (pushTiles d (dcount d) b)"

text \<open>The bag as \<^verbatim>\<open>init\<close> has it just before it calls \<^verbatim>\<open>shuffle\<close>.\<close>

definition unshuffled :: TileBag where
  "unshuffled = initLoop TILE_DEFINITIONS \<lparr>tiles = [], nextId = 0\<rparr>"

text \<open>
  \<^verbatim>\<open>shuffle\<close> is Fisher-Yates, from the last index down to 1. The source draws
  \<^verbatim>\<open>j = Math.floor(Math.random() * (i + 1))\<close>, some index in \<open>0..i\<close>; the model takes
  the random source as a function \<open>rnd\<close> from the loop index to a natural number and
  reduces it into that range.
\<close>

definition swapAt :: "'a list \<Rightarrow> nat \<Rightarrow> nat \<Rightarrow> 'a list" where
  "swapAt xs i j = xs[i := xs ! j, j := xs ! i]"

fun shuffleLoop :: "(nat \<Rightarrow> nat) \<Rightarrow> nat \<Rightarrow> 'a list \<Rightarrow> 'a list" where
  "shuffleLoop rnd 0 xs = xs"
| "shuffleLoop rnd (Suc i) xs = shuffleLoop rnd i (swapAt xs (Suc i) (rnd (Suc i) mod (Suc i + 1)))"

definition shuffle :: "(nat \<Rightarrow> nat) \<Rightarrow> TileBag \<Rightarrow> TileBag" where
  "shuffle rnd b = b\<lparr>tiles := shuffleLoop rnd (length (tiles b) - 1) (tiles b)\<rparr>"

definition init :: "(nat \<Rightarrow> nat) \<Rightarrow> TileBag" where
  "init rnd = shuffle rnd unshuffled"

text \<open>
  \<^verbatim>\<open>draw\<close>: \<^verbatim>\<open>splice(0, Math.min(count, length))\<close> removes that many tiles from the
  front and returns them; a negative delete count removes nothing.
\<close>

definition draw :: "int \<Rightarrow> TileBag \<Rightarrow> Tile list \<times> TileBag" where
  "draw cnt b =
     (let n = nat (min cnt (int (length (tiles b))))
      in (take n (tiles b), b\<lparr>tiles := drop n (tiles b)\<rparr>))"

definition drawToFill :: "int \<Rightarrow> TileBag \<Rightarrow> Tile list \<times> TileBag" where
  "drawToFill currentCount b =
     (let needed = RACK_SIZE - currentCount
      in if needed \<le> 0 then ([], b) else draw needed b)"

text \<open>
  \<^verbatim>\<open>exchange\<close>: the size check, then the draw, then every returned tile is pushed back
  (a blank loses its assigned character) and the bag is shuffled. The tiles returned are
  the objects of the rack; the caller then drops every rack tile with one of their
  identities, so the reset character is seen in the bag only.
\<close>

definition resetBlank :: "Tile \<Rightarrow> Tile" where
  "resetBlank t = (if isBlank t then t\<lparr>assignedChar := None\<rparr> else t)"

definition exchange :: "(nat \<Rightarrow> nat) \<Rightarrow> Tile list \<Rightarrow> TileBag \<Rightarrow> error + (Tile list \<times> TileBag)" where
  "exchange rnd tilesToReturn b =
     (if length (tiles b) < length tilesToReturn then Inl BagTooSmall
      else
        (let (drawn, b1) = draw (int (length tilesToReturn)) b;
             b2 = b1\<lparr>tiles := tiles b1 @ map resetBlank tilesToReturn\<rparr>
         in Inr (drawn, shuffle rnd b2)))"

definition remaining :: "TileBag \<Rightarrow> nat" where
  "remaining b = length (tiles b)"

definition isEmpty :: "TileBag \<Rightarrow> bool" where
  "isEmpty b = (length (tiles b) = 0)"


section \<open>Bonus layout (server/src/board.ts)\<close>

text \<open>
  Grids are lists of rows, \<^verbatim>\<open>grid[r][c]\<close> is \<open>at2 grid r c\<close>. Coordinates are integers,
  as the bounds checks of the source compare them with 0; every read of the source is
  behind such a check, so that the index is inside the grid.
\<close>

definition at2 :: "'a list list \<Rightarrow> int \<Rightarrow> int \<Rightarrow> 'a" where
  "at2 g r c = g ! nat r ! nat c"

definition set2 :: "'a list list \<Rightarrow> int \<Rightarrow> int \<Rightarrow> 'a \<Rightarrow> 'a list list" where
  "set2 g r c v = g[nat r := (g ! nat r)[nat c := v]]"

definition BONUS_POSITIONS :: "(int \<times> int \<times> BonusType) list" where
  "BONUS_POSITIONS = [
     (0, 0, TW), (0, 7, TW), (7, 0, TW),
     (1, 1, DW), (2, 2, DW), (3, 3, DW), (4, 4, DW),
     (1, 5, TL), (5, 1, TL), (5, 5, TL),
     (0, 3, DL), (3, 0, DL), (2, 6, DL), (6, 2, DL), (6, 6, DL), (3, 7, DL), (7, 3, DL),
     (7, 7, START)]"

text \<open>\<^verbatim>\<open>mirrorPositions\<close>: the eight images of a cell, the first occurrence of each kept.\<close>

fun keepFirst :: "'a list \<Rightarrow> 'a list \<Rightarrow> 'a list" where
  "keepFirst seen [] = []"
| "keepFirst seen (x # xs) =
     (if x \<in> set seen then keepFirst seen xs else x # keepFirst (seen @ [x]) xs)"

definition mirrorPositions :: "int \<Rightarrow> int \<Rightarrow> (int \<times> int) list" where
  "mirrorPositions r c =
     (let maxIdx = BOARD_SIZE - 1
      in keepFirst []
           [(r, c), (r, maxIdx - c), (maxIdx - r, c), (maxIdx - r, maxIdx - c),
            (c, r), (c, maxIdx - r), (maxIdx - c, r), (maxIdx - c, maxIdx - r)])"

definition applyBonus :: "BonusType \<Rightarrow> BonusType list list \<Rightarrow> int \<times> int \<Rightarrow> BonusType list list" where
  "applyBonus ty layout p =
     (case p of (r, c) \<Rightarrow>
        if at2 layout r c = NONE \<or> ty = START then set2 layout r c ty else layout)"

definition createBonusLayout :: "BonusType list list" where
  "createBonusLayout =
     foldl (\<lambda>layout (r, c, ty). foldl (applyBonus ty) layout (mirrorPositions r c))
       (replicate (nat BOARD_SIZE) (replicate (nat BOARD_SIZE) NONE))
       BONUS_POSITIONS"

section \<open>Placement validation (BoardValidator.ts)\<close>

type_synonym Board = "Tile option list list"

record PlacedTile =
  pt_tile :: Tile
  pt_row :: int
  pt_col :: int

record WordTile =
  wt_tile :: Tile
  wt_row :: int
  wt_col :: int
  isNew :: bool

record WordFound =
  word :: jstring
  wf_tiles :: "WordTile list"

datatype Direction = horizontal | vertical

text \<open>An optional string is falsy when it is undefined or empty.\<close>

definition truthy :: "jstring option \<Rightarrow> bool" where
  "truthy s = (case s of None \<Rightarrow> False | Some cs \<Rightarrow> cs \<noteq> [])"

text \<open>
  The first loop of \<^verbatim>\<open>validate\<close>: per placement, in this order, the rack lookup, the
  bounds, the occupancy of the target cell and the blank's character; the first failure
  is thrown. The placed tile is a copy of the rack tile.
\<close>

fun collectPlaced :: "Board \<Rightarrow> (int \<rightharpoonup> Tile) \<Rightarrow> TilePlacement list \<Rightarrow> error + PlacedTile list" where
  "collectPlaced b rackTiles [] = Inr []"
| "collectPlaced b rackTiles (p # ps) =
     (case rackTiles (tileId p) of
        None \<Rightarrow> Inl TileNotInRack
      | Some t \<Rightarrow>
          if row p < 0 \<or> row p \<ge> BOARD_SIZE \<or> col p < 0 \<or> col p \<ge> BOARD_SIZE then Inl OutOfBounds
          else if at2 b (row p) (col p) \<noteq> None then Inl (CellOccupied (row p) (col p))
          else if isBlank t \<and> \<not> truthy (assignedChar_p p) then Inl BlankNeedsChar
          else
            (case collectPlaced b rackTiles ps of
               Inl e \<Rightarrow> Inl e
             | Inr rest \<Rightarrow>
                 Inr (\<lparr>pt_tile = (if isBlank t then t\<lparr>assignedChar := assignedChar_p p\<rparr> else t),
                       pt_row = row p, pt_col = col p\<rparr> # rest)))"

definition minList :: "int list \<Rightarrow> int" where
  "minList xs = foldl min (hd xs) (tl xs)"

definition maxList :: "int list \<Rightarrow> int" where
  "maxList xs = foldl max (hd xs) (tl xs)"

definition tempBoardOf :: "Board \<Rightarrow> PlacedTile list \<Rightarrow> Board" where
  "tempBoardOf b placed = foldl (\<lambda>tb pt. set2 tb (pt_row pt) (pt_col pt) (Some (pt_tile pt))) b placed"

definition newPositionsOf :: "PlacedTile list \<Rightarrow> (int \<times> int) list" where
  "newPositionsOf placed = map (\<lambda>pt. (pt_row pt, pt_col pt)) placed"

definition dr_of :: "Direction \<Rightarrow> int" where
  "dr_of d = (if d = vertical then 1 else 0)"

definition dc_of :: "Direction \<Rightarrow> int" where
  "dc_of d = (if d = horizontal then 1 else 0)"

text \<open>\<^verbatim>\<open>getWordAt\<close>, first loop: walk back to the start of the run.\<close>

function findStart :: "Board \<Rightarrow> Direction \<Rightarrow> int \<Rightarrow> int \<Rightarrow> int \<times> int" where
  "findStart b d r c =
     (if r - dr_of d \<ge> 0 \<and> c - dc_of d \<ge> 0 \<and> at2 b (r - dr_of d) (c - dc_of d) \<noteq> None
      then findStart b d (r - dr_of d) (c - dc_of d)
      else (r, c))"
  by pat_completeness auto
termination
proof (relation "measure (\<lambda>(b, d, r, c). nat (r + c))")
  show "wf (measure (\<lambda>(b, d, r, c). nat (r + c)))"
    by simp
next
  fix b :: Board and d :: Direction and r c :: int
  assume "0 \<le> r - dr_of d \<and> 0 \<le> c - dc_of d \<and> at2 b (r - dr_of d) (c - dc_of d) \<noteq> None"
  then show "((b, d, r - dr_of d, c - dc_of d), (b, d, r, c)) \<in> measure (\<lambda>(b, d, r, c). nat (r + c))"
    by (cases d) (auto simp: dr_of_def dc_of_def)
qed

text \<open>\<^verbatim>\<open>getWordAt\<close>, second loop: collect the run forward to its end.\<close>

definition tileChar :: "Tile \<Rightarrow> jstring" where
  "tileChar t = (if isBlank t \<and> truthy (assignedChar t) then the (assignedChar t) else char_t t)"

function collectRun :: "Board \<Rightarrow> (int \<times> int) list \<Rightarrow> Direction \<Rightarrow> int \<Rightarrow> int \<Rightarrow> WordTile list" where
  "collectRun b newPositions d r c =
     (if r < BOARD_SIZE \<and> c < BOARD_SIZE \<and> at2 b r c \<noteq> None
      then \<lparr>wt_tile = the (at2 b r c), wt_row = r, wt_col = c, isNew = ((r, c) \<in> set newPositions)\<rparr>
             # collectRun b newPositions d (r + dr_of d) (c + dc_of d)
      else [])"
  by pat_completeness auto
termination
proof (relation "measure (\<lambda>(b, np, d, r, c). nat (2 * BOARD_SIZE - r - c))")
  show "wf (measure (\<lambda>(b, np, d, r, c). nat (2 * BOARD_SIZE - r - c)))"
    by simp
next
  fix b :: Board and np :: "(int \<times> int) list" and d :: Direction and r c :: int
  assume "r < BOARD_SIZE \<and> c < BOARD_SIZE \<and> at2 b r c \<noteq> None"
  then show "((b, np, d, r + dr_of d, c + dc_of d), (b, np, d, r, c))
      \<in> measure (\<lambda>(b, np, d, r, c). nat (2 * BOARD_SIZE - r - c))"
    by (cases d) (auto simp: dr_of_def dc_of_def BOARD_SIZE_def)
qed

definition getWordAt :: "Board \<Rightarrow> int \<Rightarrow> int \<Rightarrow> Direction \<Rightarrow> (int \<times> int) list \<Rightarrow> WordFound option" where
  "getWordAt b r c d newPositions =
     (case findStart b d r c of (r0, c0) \<Rightarrow>
        (let ts = collectRun b newPositions d r0 c0
         in if length ts < 2 then None
            else Some \<lparr>word = concat (map (\<lambda>wt. tileChar (wt_tile wt)) ts), wf_tiles = ts\<rparr>))"

text \<open>
  \<^verbatim>\<open>extractWords\<close>: for each placed tile the horizontal word, then the vertical one;
  a word is kept once per direction and start cell (the set \<^verbatim>\<open>checked\<close>).
\<close>

definition addWord :: "Direction \<Rightarrow> WordFound option \<Rightarrow> WordFound list \<times> (Direction \<times> int \<times> int) list
    \<Rightarrow> WordFound list \<times> (Direction \<times> int \<times> int) list" where
  "addWord d w acc =
     (case acc of (ws, checked) \<Rightarrow>
        (case w of
           None \<Rightarrow> (ws, checked)
         | Some found \<Rightarrow>
             if length (wf_tiles found) \<ge> 2 then
               (let key = (d, wt_row (hd (wf_tiles found)), wt_col (hd (wf_tiles found)))
                in if key \<in> set checked then (ws, checked) else (ws @ [found], checked @ [key]))
             else (ws, checked)))"

definition extractWords :: "Board \<Rightarrow> PlacedTile list \<Rightarrow> (int \<times> int) list \<Rightarrow> WordFound list" where
  "extractWords b placed newPositions =
     fst (foldl (\<lambda>acc pt.
            addWord vertical (getWordAt b (pt_row pt) (pt_col pt) vertical newPositions)
              (addWord horizontal (getWordAt b (pt_row pt) (pt_col pt) horizontal newPositions) acc))
          ([], []) placed)"

definition hasNeighbour :: "Board \<Rightarrow> PlacedTile \<Rightarrow> bool" where
  "hasNeighbour b pt =
     list_ex (\<lambda>(dr, dc).
        let nr = pt_row pt + dr; nc = pt_col pt + dc
        in if nr < 0 \<or> nr \<ge> BOARD_SIZE \<or> nc < 0 \<or> nc \<ge> BOARD_SIZE then False
           else at2 b nr nc \<noteq> None)
      [(0, 1), (0, -1), (1, 0), (-1, 0)]"

text \<open>The dictionary check stops at the first word that is not in the dictionary.\<close>

fun checkDictionary :: "jstring set \<Rightarrow> WordFound list \<Rightarrow> error option" where
  "checkDictionary dict [] = None"
| "checkDictionary dict (w # ws) =
     (if word w \<in> dict then checkDictionary dict ws else Some (NotInDictionary (word w)))"

definition validate :: "jstring set \<Rightarrow> Board \<Rightarrow> TilePlacement list \<Rightarrow> (int \<rightharpoonup> Tile) \<Rightarrow> bool
    \<Rightarrow> error + WordFound list" where
  "validate dict b placements rackTiles isFirst =
     (if length placements = 0 then Inl NoTilesPlaced
      else
        (case collectPlaced b rackTiles placements of
           Inl e \<Rightarrow> Inl e
         | Inr placedTiles \<Rightarrow>
             (let isHorizontal = (length (remdups (map pt_row placedTiles)) = 1);
                  isVertical = (length (remdups (map pt_col placedTiles)) = 1)
              in if \<not> isHorizontal \<and> \<not> isVertical then Inl NotInLine
                 else
                   (let tempBoard = tempBoardOf b placedTiles;
                        newPositions = newPositionsOf placedTiles;
                        gapFree =
                          (if isHorizontal then
                             list_all (\<lambda>c. at2 tempBoard (pt_row (hd placedTiles)) c \<noteq> None)
                               [minList (map pt_col placedTiles) .. maxList (map pt_col placedTiles)]
                           else
                             list_all (\<lambda>r. at2 tempBoard r (pt_col (hd placedTiles)) \<noteq> None)
                               [minList (map pt_row placedTiles) .. maxList (map pt_row placedTiles)])
                    in if \<not> gapFree then Inl GapBetweenTiles
                       else if isFirst \<and>
                               \<not> list_ex (\<lambda>t. pt_row t = BOARD_SIZE div 2 \<and> pt_col t = BOARD_SIZE div 2) placedTiles
                         then Inl FirstMoveOffCenter
                       else if isFirst \<and> length placedTiles < 2 then Inl FirstMoveTooShort
                       else if \<not> isFirst \<and> \<not> list_ex (hasNeighbour b) placedTiles then Inl NotAdjacent
                       else
                         (let ws = extractWords tempBoard placedTiles newPositions
                          in if length ws = 0 then Inl NoWordFormed
                             else
                               (case checkDictionary dict ws of
                                  Some e \<Rightarrow> Inl e
                                | None \<Rightarrow> Inr ws))))))"

section \<open>The game session (Game.ts)\<close>

record Player =
  id_p :: string
  name :: string
  score :: int
  rack :: "Tile list"
  connected :: bool

text \<open>
  The fields of \<^verbatim>\<open>class Game\<close>. The turn timer is recorded as armed or not; the
  wall-clock deadline, which only the clients display, is left out. The dictionary of the
  validator is a set of strings.
\<close>

record Game =
  board :: Board
  bonusLayout :: "BonusType list list"
  players :: "Player list"
  currentPlayerIndex :: nat
  tileBag :: TileBag
  dictionary :: "jstring set"
  turnHistory :: "TurnRecord list"
  phase :: GamePhase
  consecutivePasses :: nat
  isFirstMove :: bool
  turnTimer :: bool

text \<open>
  An operation that can throw returns the error or its result, together with the session
  as the operation leaves it: at a throw, the fields written before the throw stay written.
\<close>

type_synonym 'a outcome = "(error + 'a) \<times> Game"

definition initBoard :: Board where
  "initBoard = replicate (nat BOARD_SIZE) (replicate (nat BOARD_SIZE) None)"

definition newGame :: "(nat \<Rightarrow> nat) \<Rightarrow> jstring set \<Rightarrow> Game" where
  "newGame rnd dict =
     \<lparr>board = initBoard, bonusLayout = createBonusLayout, players = [], currentPlayerIndex = 0,
      tileBag = init rnd, dictionary = dict, turnHistory = [], phase = waiting,
      consecutivePasses = 0, isFirstMove = True, turnTimer = False\<rparr>"

definition clearTurnTimer :: "Game \<Rightarrow> Game" where
  "clearTurnTimer g = g\<lparr>turnTimer := False\<rparr>"

definition startTurnTimer :: "Game \<Rightarrow> Game" where
  "startTurnTimer g =
     (let g1 = clearTurnTimer g
      in if phase g1 \<noteq> playing then g1 else g1\<lparr>turnTimer := True\<rparr>)"

definition addPlayer :: "string \<Rightarrow> string \<Rightarrow> Game \<Rightarrow> unit outcome" where
  "addPlayer pid nm g =
     (if phase g \<noteq> waiting then (Inl JoinWhilePlaying, g)
      else if length (players g) \<ge> 4 then (Inl RoomFull, g)
      else if list_ex (\<lambda>p. id_p p = pid) (players g) then (Inl AlreadyJoined, g)
      else (Inr (), g\<lparr>players := players g @
              [\<lparr>id_p = pid, name = nm, score = 0, rack = [], connected = True\<rparr>]\<rparr>))"

definition removePlayer :: "string \<Rightarrow> Game \<Rightarrow> Game" where
  "removePlayer pid g = g\<lparr>players := filter (\<lambda>p. id_p p \<noteq> pid) (players g)\<rparr>"

text \<open>\<^verbatim>\<open>setConnected\<close> writes the flag of the first player with this identity.\<close>

fun setFirst :: "string \<Rightarrow> bool \<Rightarrow> Player list \<Rightarrow> Player list" where
  "setFirst pid v [] = []"
| "setFirst pid v (p # ps) =
     (if id_p p = pid then p\<lparr>connected := v\<rparr> # ps else p # setFirst pid v ps)"

definition setConnected :: "string \<Rightarrow> bool \<Rightarrow> Game \<Rightarrow> Game" where
  "setConnected pid v g = g\<lparr>players := setFirst pid v (players g)\<rparr>"

text \<open>The loop of \<^verbatim>\<open>start\<close>: every player's rack is replaced by a draw of seven.\<close>

fun dealRacks :: "Player list \<Rightarrow> TileBag \<Rightarrow> Player list \<times> TileBag" where
  "dealRacks [] b = ([], b)"
| "dealRacks (p # ps) b =
     (case draw RACK_SIZE b of (drawn, b1) \<Rightarrow>
        (case dealRacks ps b1 of (ps', b2) \<Rightarrow> (p\<lparr>rack := drawn\<rparr> # ps', b2)))"

definition start :: "Game \<Rightarrow> unit outcome" where
  "start g =
     (if length (players g) < 2 then (Inl NeedTwoPlayers, g)
      else
        (case dealRacks (players g) (tileBag g) of (ps, b) \<Rightarrow>
           (Inr (), startTurnTimer (g\<lparr>phase := playing, players := ps, tileBag := b\<rparr>))))"

text \<open>\<^verbatim>\<open>this.players[this.currentPlayerIndex]?.id ?? ''\<close>\<close>

definition currentPlayerId :: "Game \<Rightarrow> string" where
  "currentPlayerId g =
     (if currentPlayerIndex g < length (players g) then id_p (players g ! currentPlayerIndex g) else [])"

definition assertTurn :: "Game \<Rightarrow> string \<Rightarrow> error option" where
  "assertTurn g pid =
     (if phase g \<noteq> playing then Some GameNotStarted
      else if currentPlayerId g \<noteq> pid then Some NotYourTurn
      else None)"

definition advanceTurn :: "Game \<Rightarrow> Game" where
  "advanceTurn g =
     (if phase g \<noteq> playing then g
      else startTurnTimer (g\<lparr>currentPlayerIndex := (currentPlayerIndex g + 1) mod length (players g)\<rparr>))"

definition rackPoints :: "Tile list \<Rightarrow> int" where
  "rackPoints r = foldl (\<lambda>sum t. sum + points t) 0 r"

definition endGame :: "Game \<Rightarrow> Game" where
  "endGame g =
     (clearTurnTimer (g\<lparr>phase := finished\<rparr>))
       \<lparr>players := map (\<lambda>p. p\<lparr>score := score p - rackPoints (rack p)\<rparr>) (players g)\<rparr>"

definition checkGameEnd :: "Game \<Rightarrow> Game" where
  "checkGameEnd g =
     (if consecutivePasses g \<ge> length (players g) * 2 then endGame g
      else if list_ex (\<lambda>p. length (rack p) = 0) (players g) \<and> isEmpty (tileBag g) then endGame g
      else g)"

text \<open>
  The scoring loops of \<^verbatim>\<open>playTiles\<close>: the inner loop keeps \<^verbatim>\<open>wordScore\<close> and
  \<^verbatim>\<open>wordMultiplier\<close>, the outer one \<^verbatim>\<open>totalScore\<close> and \<^verbatim>\<open>wordResults\<close>.
\<close>

definition tilePoints :: "Tile \<Rightarrow> int" where
  "tilePoints t = (if isBlank t then 0 else points t)"

definition scoreTile :: "BonusType list list \<Rightarrow> int \<times> int \<Rightarrow> WordTile \<Rightarrow> int \<times> int" where
  "scoreTile layout acc wt =
     (case acc of (wordScore, wordMultiplier) \<Rightarrow>
        if isNew wt then
          (case at2 layout (wt_row wt) (wt_col wt) of
             DL \<Rightarrow> (wordScore + tilePoints (wt_tile wt) * 2, wordMultiplier)
           | TL \<Rightarrow> (wordScore + tilePoints (wt_tile wt) * 3, wordMultiplier)
           | DW \<Rightarrow> (wordScore + tilePoints (wt_tile wt), wordMultiplier * 2)
           | START \<Rightarrow> (wordScore + tilePoints (wt_tile wt), wordMultiplier * 2)
           | TW \<Rightarrow> (wordScore + tilePoints (wt_tile wt), wordMultiplier * 3)
           | NONE \<Rightarrow> (wordScore + tilePoints (wt_tile wt), wordMultiplier))
        else (wordScore + tilePoints (wt_tile wt), wordMultiplier))"

definition scoreWord :: "BonusType list list \<Rightarrow> WordFound \<Rightarrow> int" where
  "scoreWord layout w = (case foldl (scoreTile layout) (0, 1) (wf_tiles w) of (ws, wm) \<Rightarrow> ws * wm)"

definition scoreWords :: "BonusType list list \<Rightarrow> WordFound list \<Rightarrow> int \<times> (jstring \<times> int) list" where
  "scoreWords layout wordsFound =
     foldl (\<lambda>(totalScore, wordResults) w.
              (totalScore + scoreWord layout w, wordResults @ [(word w, scoreWord layout w)]))
       (0, []) wordsFound"

text \<open>
  \<^verbatim>\<open>new Map(player.rack.map(t => [t.id, t]))\<close>: of two tiles with one identity the
  later one is kept.
\<close>

definition rackMapOf :: "Tile list \<Rightarrow> (int \<rightharpoonup> Tile)" where
  "rackMapOf r = map_of (rev (map (\<lambda>t. (id_t t, t)) r))"

definition placeOnBoard :: "(int \<rightharpoonup> Tile) \<Rightarrow> Board \<Rightarrow> TilePlacement \<Rightarrow> Board" where
  "placeOnBoard rackMap b p =
     (let t = the (rackMap (tileId p));
          placed = (if truthy (assignedChar_p p) then t\<lparr>assignedChar := assignedChar_p p\<rparr> else t)
      in set2 b (row p) (col p) (Some placed))"

text \<open>
  \<^verbatim>\<open>playTiles\<close>. A session whose current index is outside the player list has no
  current player: \<^verbatim>\<open>player.rack\<close> then throws a TypeError.
\<close>

definition playTiles :: "string \<Rightarrow> TilePlacement list \<Rightarrow> Game \<Rightarrow> ((jstring \<times> int) list \<times> int) outcome" where
  "playTiles pid placements g =
     (case assertTurn g pid of
        Some e \<Rightarrow> (Inl e, g)
      | None \<Rightarrow>
          if \<not> currentPlayerIndex g < length (players g) then (Inl TypeError, g)
          else
            (let player = players g ! currentPlayerIndex g;
                 rackMap = rackMapOf (rack player)
             in case validate (dictionary g) (board g) placements rackMap (isFirstMove g) of
                  Inl e \<Rightarrow> (Inl e, g)
                | Inr wordsFound \<Rightarrow>
                    (let (wordsTotal, wordResults) = scoreWords (bonusLayout g) wordsFound;
                         totalScore = (if int (length placements) = RACK_SIZE
                                       then wordsTotal + BINGO_BONUS else wordsTotal);
                         board' = foldl (placeOnBoard rackMap) (board g) placements;
                         kept = filter (\<lambda>t. id_t t \<notin> set (map tileId placements)) (rack player);
                         (drawn, bag') = drawToFill (int (length kept)) (tileBag g);
                         player' = player\<lparr>rack := kept @ drawn, score := score player + totalScore\<rparr>;
                         g1 = g\<lparr>board := board',
                                players := (players g)[currentPlayerIndex g := player'],
                                tileBag := bag',
                                isFirstMove := False,
                                consecutivePasses := 0,
                                turnHistory := turnHistory g @
                                  [\<lparr>playerId = id_p player, playerName = name player, action = play,
                                    words = Some wordResults, totalScore = totalScore\<rparr>]\<rparr>
                     in (Inr (wordResults, totalScore), checkGameEnd (advanceTurn g1)))))"

text \<open>The lookup loop of \<^verbatim>\<open>exchangeTiles\<close>: \<^verbatim>\<open>rack.find\<close> per requested identity.\<close>

fun findTiles :: "Tile list \<Rightarrow> int list \<Rightarrow> error + Tile list" where
  "findTiles r [] = Inr []"
| "findTiles r (i # is) =
     (case find (\<lambda>t. id_t t = i) r of
        None \<Rightarrow> Inl TileNotInRack
      | Some t \<Rightarrow> (case findTiles r is of Inl e \<Rightarrow> Inl e | Inr ts \<Rightarrow> Inr (t # ts)))"

definition exchangeTiles :: "(nat \<Rightarrow> nat) \<Rightarrow> string \<Rightarrow> int list \<Rightarrow> Game \<Rightarrow> unit outcome" where
  "exchangeTiles rnd pid tileIds g =
     (case assertTurn g pid of
        Some e \<Rightarrow> (Inl e, g)
      | None \<Rightarrow>
          if length tileIds = 0 then (Inl NoExchangeTiles, g)
          else if remaining (tileBag g) < length tileIds then (Inl BagTooSmall, g)
          else if \<not> currentPlayerIndex g < length (players g) then (Inl TypeError, g)
          else
            (let player = players g ! currentPlayerIndex g
             in case findTiles (rack player) tileIds of
                  Inl e \<Rightarrow> (Inl e, g)
                | Inr tilesToExchange \<Rightarrow>
                    (case exchange rnd tilesToExchange (tileBag g) of
                       Inl e \<Rightarrow> (Inl e, g)
                     | Inr (newTiles, bag') \<Rightarrow>
                         (let player' = player\<lparr>rack :=
                                filter (\<lambda>t. id_t t \<notin> set tileIds) (rack player) @ newTiles\<rparr>;
                              g1 = g\<lparr>tileBag := bag',
                                     players := (players g)[currentPlayerIndex g := player'],
                                     consecutivePasses := 0,
                                     turnHistory := turnHistory g @
                                       [\<lparr>playerId = id_p player, playerName = name player,
                                         action = exchange_a, words = None, totalScore = 0\<rparr>]\<rparr>
                          in (Inr (), advanceTurn g1)))))"

text \<open>
  \<^verbatim>\<open>forcePass\<close> and \<^verbatim>\<open>pass\<close> share their body; it increments the counter before it
  reads the current player's identity for the turn record.
\<close>

definition passBody :: "Game \<Rightarrow> unit outcome" where
  "passBody g =
     (let g1 = g\<lparr>consecutivePasses := consecutivePasses g + 1\<rparr>
      in if \<not> currentPlayerIndex g < length (players g) then (Inl TypeError, g1)
         else
           (let player = players g ! currentPlayerIndex g;
                g2 = g1\<lparr>turnHistory := turnHistory g @
                       [\<lparr>playerId = id_p player, playerName = name player,
                         action = pass_a, words = None, totalScore = 0\<rparr>]\<rparr>
            in (Inr (), checkGameEnd (advanceTurn g2))))"

definition forcePass :: "Game \<Rightarrow> unit outcome" where
  "forcePass g = passBody g"

definition pass :: "string \<Rightarrow> Game \<Rightarrow> unit outcome" where
  "pass pid g = (case assertTurn g pid of Some e \<Rightarrow> (Inl e, g) | None \<Rightarrow> passBody g)"

text \<open>The callback of the turn timer: a forced pass, if the session is still playing.\<close>

definition turnTimerFires :: "Game \<Rightarrow> unit outcome" where
  "turnTimerFires g = (if phase g = playing then forcePass g else (Inr (), g))"

section \<open>Rooms and reconnection (Room.ts)\<close>

text \<open>
  A room's \<^verbatim>\<open>players\<close> map is an association list in insertion order. A connection is
  a handle. The grace timers that \<^verbatim>\<open>setTimeout\<close> has armed for this room and that
  have neither fired nor been cleared are kept in \<open>timers\<close>, each with the player
  identity its callback has captured; \<open>nextTimer\<close> is the next fresh handle.
\<close>

record RoomPlayer =
  rp_id :: string
  rp_name :: string
  ws :: nat
  reconnectTimer :: "nat option"

record Room =
  code_r :: string
  rplayers :: "(string \<times> RoomPlayer) list"
  hostId :: string
  game :: Game
  timers :: "(nat \<times> string) list"
  nextTimer :: nat

text \<open>\<^verbatim>\<open>clearTimeout\<close>: the timer, if it is still pending, will not fire.\<close>

definition clearTimeout :: "nat \<Rightarrow> Room \<Rightarrow> Room" where
  "clearTimeout h rm = rm\<lparr>timers := filter (\<lambda>(h', pid). h' \<noteq> h) (timers rm)\<rparr>"

definition removePlayer_r :: "string \<Rightarrow> Room \<Rightarrow> Room" where
  "removePlayer_r pid rm =
     (let rm1 = (case map_of (rplayers rm) pid of
                   Some p \<Rightarrow> (case reconnectTimer p of Some h \<Rightarrow> clearTimeout h rm | None \<Rightarrow> rm)
                 | None \<Rightarrow> rm);
          rm2 = rm1\<lparr>rplayers := filter (\<lambda>(k, p). k \<noteq> pid) (rplayers rm1)\<rparr>
      in if phase (game rm2) = waiting then rm2\<lparr>game := removePlayer pid (game rm2)\<rparr> else rm2)"

definition updatePlayer :: "string \<Rightarrow> (RoomPlayer \<Rightarrow> RoomPlayer) \<Rightarrow> Room \<Rightarrow> Room" where
  "updatePlayer pid f rm = rm\<lparr>rplayers := map (\<lambda>(k, p). if k = pid then (k, f p) else (k, p)) (rplayers rm)\<rparr>"

definition reconnectPlayer :: "string \<Rightarrow> nat \<Rightarrow> Room \<Rightarrow> bool \<times> Room" where
  "reconnectPlayer pid w rm =
     (case map_of (rplayers rm) pid of
        None \<Rightarrow> (False, rm)
      | Some p \<Rightarrow>
          (let rm1 = (case reconnectTimer p of
                        Some h \<Rightarrow> updatePlayer pid (\<lambda>q. q\<lparr>reconnectTimer := None\<rparr>) (clearTimeout h rm)
                      | None \<Rightarrow> rm);
               rm2 = updatePlayer pid (\<lambda>q. q\<lparr>ws := w\<rparr>) rm1
           in (True, rm2\<lparr>game := setConnected pid True (game rm2)\<rparr>)))"

text \<open>
  \<^verbatim>\<open>handleDisconnect\<close> returns, with the room, whether it has called \<^verbatim>\<open>onTimeout\<close>
  itself. While the session is playing it only arms the grace timer.
\<close>

definition handleDisconnect :: "string \<Rightarrow> Room \<Rightarrow> bool \<times> Room" where
  "handleDisconnect pid rm =
     (case map_of (rplayers rm) pid of
        None \<Rightarrow> (False, rm)
      | Some p \<Rightarrow>
          (let rm1 = rm\<lparr>game := setConnected pid False (game rm)\<rparr>
           in if phase (game rm1) = playing then
                (False,
                 (updatePlayer pid (\<lambda>q. q\<lparr>reconnectTimer := Some (nextTimer rm1)\<rparr>) rm1)
                   \<lparr>timers := timers rm1 @ [(nextTimer rm1, pid)], nextTimer := nextTimer rm1 + 1\<rparr>)
              else (True, removePlayer_r pid rm1)))"

text \<open>
  A pending grace timer fires: its callback removes the player it captured and calls
  \<^verbatim>\<open>onTimeout\<close>. A handle that is not pending does not fire.
\<close>

definition graceTimerFires :: "nat \<Rightarrow> Room \<Rightarrow> bool \<times> Room" where
  "graceTimerFires h rm =
     (case map_of (timers rm) h of
        None \<Rightarrow> (False, rm)
      | Some pid \<Rightarrow> (True, removePlayer_r pid (clearTimeout h rm)))"

section \<open>Intents (the message switch of server/src/index.ts)\<close>

text \<open>
  The three gameplay messages of \<^verbatim>\<open>ClientMessage\<close> and the calls the switch makes for
  them, for the player identity of the connection; \<open>rnd\<close> is the random source of the
  shuffle an exchange ends with.
\<close>

datatype ClientMessage =
    PLAY_TILES "TilePlacement list"
  | EXCHANGE_TILES "int list"
  | PASS

definition dropResult :: "'a outcome \<Rightarrow> unit outcome" where
  "dropResult out = (case out of (Inl e, g) \<Rightarrow> (Inl e, g) | (Inr v, g) \<Rightarrow> (Inr (), g))"

fun handleMessage :: "(nat \<Rightarrow> nat) \<Rightarrow> string \<Rightarrow> ClientMessage \<Rightarrow> Game \<Rightarrow> unit outcome" where
  "handleMessage rnd pid (PLAY_TILES placements) g = dropResult (playTiles pid placements g)"
| "handleMessage rnd pid (EXCHANGE_TILES tileIds) g = exchangeTiles rnd pid tileIds g"
| "handleMessage rnd pid PASS g = pass pid g"

text \<open>
  What changes a started session: a gameplay message of a participant, or the expiry of
  the turn timer.
\<close>

datatype Event = Message string ClientMessage | TurnTimeout

fun step :: "(nat \<Rightarrow> nat) \<Rightarrow> Event \<Rightarrow> Game \<Rightarrow> unit outcome" where
  "step rnd (Message pid msg) g = handleMessage rnd pid msg g"
| "step rnd TurnTimeout g = turnTimerFires g"

section \<open>The end conditions in the words of the specification\<close>

text \<open>
  The consecutive-pass counter has reached twice the number of participants, or the pool
  is empty and some participant's rack is empty.
\<close>

definition endCondition :: "Game \<Rightarrow> bool" where
  "endCondition g =
     (length (players g) * 2 \<le> consecutivePasses g
      \<or> (list_ex (\<lambda>p. length (rack p) = 0) (players g) \<and> isEmpty (tileBag g)))"

section \<open>The scoring rule in the words of the specification\<close>

text \<open>
  The cells of this turn's placements are the new cells. The points of a tile on a new
  cell are multiplied by the letter multiplier of the cell, and the word multiplier of
  the cell is multiplied into the word's multiplier; a tile on any other cell counts its
  points as they are. The point value of a tile is the one \<^verbatim>\<open>playTiles\<close> computes
  (\<open>tilePoints\<close>).
\<close>

definition letterMultiplier :: "BonusType \<Rightarrow> int" where
  "letterMultiplier bt = (case bt of DL \<Rightarrow> 2 | TL \<Rightarrow> 3 | _ \<Rightarrow> 1)"

definition wordMultiplierOf :: "BonusType \<Rightarrow> int" where
  "wordMultiplierOf bt = (case bt of DW \<Rightarrow> 2 | START \<Rightarrow> 2 | TW \<Rightarrow> 3 | _ \<Rightarrow> 1)"

definition placedCells :: "TilePlacement list \<Rightarrow> (int \<times> int) list" where
  "placedCells placements = map (\<lambda>p. (row p, col p)) placements"

definition specLetterSum :: "BonusType list list \<Rightarrow> (int \<times> int) list \<Rightarrow> WordTile list \<Rightarrow> int" where
  "specLetterSum layout newCells ts =
     sum_list (map (\<lambda>wt. if (wt_row wt, wt_col wt) \<in> set newCells
                          then tilePoints (wt_tile wt) * letterMultiplier (at2 layout (wt_row wt) (wt_col wt))
                          else tilePoints (wt_tile wt)) ts)"

definition specWordMultiplier :: "BonusType list list \<Rightarrow> (int \<times> int) list \<Rightarrow> WordTile list \<Rightarrow> int" where
  "specWordMultiplier layout newCells ts =
     prod_list (map (\<lambda>wt. wordMultiplierOf (at2 layout (wt_row wt) (wt_col wt)))
                  (filter (\<lambda>wt. (wt_row wt, wt_col wt) \<in> set newCells) ts))"

definition specWordScore :: "BonusType list list \<Rightarrow> (int \<times> int) list \<Rightarrow> WordFound \<Rightarrow> int" where
  "specWordScore layout newCells w =
     specLetterSum layout newCells (wf_tiles w) * specWordMultiplier layout newCells (wf_tiles w)"

section \<open>Tile counting and a concrete session\<close>

text \<open>The number of tiles in the bag, in all racks and on the board.\<close>

definition tilesOnBoard :: "Board \<Rightarrow> nat" where
  "tilesOnBoard b = length (filter (\<lambda>cell. cell \<noteq> None) (concat b))"

definition totalTiles :: "Game \<Rightarrow> nat" where
  "totalTiles g =
     length (tiles (tileBag g)) + sum_list (map (\<lambda>p. length (rack p)) (players g))
       + tilesOnBoard (board g)"

text \<open>
  What the client sends in a well-formed message: no tile identity twice, and for a play
  no cell twice. The server does not check either.
\<close>

fun namesEachTileOnce :: "ClientMessage \<Rightarrow> bool" where
  "namesEachTileOnce (PLAY_TILES placements) =
     (distinct (map tileId placements) \<and> distinct (map (\<lambda>p. (row p, col p)) placements))"
| "namesEachTileOnce (EXCHANGE_TILES tileIds) = distinct tileIds"
| "namesEachTileOnce PASS = True"

definition squareBoard :: "Board \<Rightarrow> bool" where
  "squareBoard b = (length b = nat BOARD_SIZE \<and> list_all (\<lambda>r. length r = nat BOARD_SIZE) b)"

definition inBounds :: "int \<Rightarrow> int \<Rightarrow> bool" where
  "inBounds r c = (0 \<le> r \<and> r < BOARD_SIZE \<and> 0 \<le> c \<and> c < BOARD_SIZE)"

text \<open>
  A random source under which \<^verbatim>\<open>shuffle\<close> swaps every tile with itself, so that the
  bag keeps the order of the tile table; a dictionary with two entries; and the session
  of two players, Aki and Ben, that the constructor, two calls of \<^verbatim>\<open>addPlayer\<close> and
  \<^verbatim>\<open>start\<close> produce. Aki holds tiles 0 to 6 and Ben tiles 7 to 13.
\<close>

definition noShuffle :: "nat \<Rightarrow> nat" where
  "noShuffle i = i"

definition demoDictionary :: "jstring set" where
  "demoDictionary = {[0x3044, 0x3046],
                     [0x3044, 0x3044, 0x3044, 0x3044, 0x3044, 0x3046, 0x3046]}"

definition lobby :: Game where
  "lobby = snd (addPlayer ''ben'' ''Ben'' (snd (addPlayer ''aki'' ''Aki'' (newGame noShuffle demoDictionary))))"

definition started :: Game where
  "started = snd (start lobby)"

definition placeAt :: "int \<Rightarrow> int \<Rightarrow> int \<Rightarrow> TilePlacement" where
  "placeAt r c i = \<lparr>row = r, col = c, tileId = i, assignedChar_p = None\<rparr>"

text \<open>Aki opens with tiles 0 and 5 on the centre cell and the cell to its right.\<close>

definition firstPlay :: "TilePlacement list" where
  "firstPlay = [placeAt 7 7 0, placeAt 7 8 5]"

definition afterFirstPlay :: Game where
  "afterFirstPlay = snd (playTiles ''aki'' firstPlay started)"

text \<open>Aki opens with the whole rack, on row 7 from column 4 to column 10.\<close>

definition fullRackPlay :: "TilePlacement list" where
  "fullRackPlay = [placeAt 7 4 0, placeAt 7 5 1, placeAt 7 6 2, placeAt 7 7 3, placeAt 7 8 4,
                   placeAt 7 9 5, placeAt 7 10 6]"

definition afterPass :: Game where
  "afterPass = snd (pass ''aki'' started)"

text \<open>Ben answers with tile 7 alone, below the centre cell.\<close>

definition secondPlay :: "TilePlacement list" where
  "secondPlay = [placeAt 8 7 7]"

definition afterSecondPlay :: Game where
  "afterSecondPlay = snd (playTiles ''ben'' secondPlay afterFirstPlay)"

text \<open>Aki, Ben and Aki pass in turn; one more pass is the fourth in a row.\<close>

definition afterThreePasses :: Game where
  "afterThreePasses = snd (pass ''aki'' (snd (pass ''ben'' afterPass)))"

text \<open>A room around the started session, both players connected, no timer pending.\<close>

definition demoRoom :: Room where
  "demoRoom =
     \<lparr>code_r = ''ABCD'',
      rplayers = [(''aki'', \<lparr>rp_id = ''aki'', rp_name = ''Aki'', ws = 1, reconnectTimer = None\<rparr>),
                  (''ben'', \<lparr>rp_id = ''ben'', rp_name = ''Ben'', ws = 2, reconnectTimer = None\<rparr>)],
      hostId = ''aki'', game = started, timers = [], nextTimer = 0\<rparr>"

text \<open>What a seat of the session holds, apart from the connection flag.\<close>

definition seats :: "Game \<Rightarrow> (string \<times> string \<times> int \<times> Tile list) list" where
  "seats g = map (\<lambda>p. (id_p p, name p, score p, rack p)) (players g)"

section \<open>Verified properties\<close>

text \<open>
  The two walks of \<^verbatim>\<open>getWordAt\<close> are unfolded one step at a time, by hand.
\<close>

declare findStart.simps [simp del] collectRun.simps [simp del]

subsection \<open>Grids\<close>

lemma squareBoard_index:
  "squareBoard b \<Longrightarrow> inBounds r c \<Longrightarrow> nat r < length b \<and> nat c < length (b ! nat r)"
  by (auto simp: squareBoard_def inBounds_def list_all_length BOARD_SIZE_def)

lemma squareBoard_set2:
  assumes "squareBoard b"
  shows "squareBoard (set2 b r c v)"
proof -
  have "length (b[nat r := (b ! nat r)[nat c := v]] ! n) = length (b ! n)" if "n < length b" for n
    using that by (cases "n = nat r") simp_all
  with assms show ?thesis
    by (simp add: squareBoard_def set2_def list_all_length)
qed

lemma at2_set2_other:
  "inBounds r c \<Longrightarrow> inBounds r' c' \<Longrightarrow> (r', c') \<noteq> (r, c) \<Longrightarrow>
     at2 (set2 b r c v) r' c' = at2 b r' c'"
proof (cases "nat r < length b")
  case False
  then have "b[nat r := (b ! nat r)[nat c := v]] = b"
    by (intro list_update_beyond) simp
  then show ?thesis by (simp add: at2_def set2_def)
next
  case True
  assume a: "inBounds r c" "inBounds r' c'" "(r', c') \<noteq> (r, c)"
  show ?thesis
  proof (cases "nat r' = nat r")
    case False
    then show ?thesis by (simp add: at2_def set2_def)
  next
    case same: True
    with a have "nat c' \<noteq> nat c" by (auto simp: inBounds_def)
    with same True show ?thesis by (simp add: at2_def set2_def)
  qed
qed

subsection \<open>The tile bag\<close>

lemma length_swapAt: "length (swapAt xs i j) = length xs"
  by (simp add: swapAt_def)

lemma mset_swapAt: "i < length xs \<Longrightarrow> j < length xs \<Longrightarrow> mset (swapAt xs i j) = mset xs"
  unfolding swapAt_def by (rule mset_swap)

lemma mset_shuffleLoop: "i < length xs \<Longrightarrow> mset (shuffleLoop rnd i xs) = mset xs"
proof (induction i arbitrary: xs)
  case 0
  then show ?case by simp
next
  case (Suc i)
  define j where "j = rnd (Suc i) mod (Suc i + 1)"
  have "j < Suc i + 1" unfolding j_def by (rule mod_less_divisor) simp
  with Suc.prems have j: "j < length xs" by linarith
  have "i < length (swapAt xs (Suc i) j)"
    using Suc.prems by (simp add: length_swapAt)
  then have "mset (shuffleLoop rnd i (swapAt xs (Suc i) j)) = mset (swapAt xs (Suc i) j)"
    by (rule Suc.IH)
  also have "\<dots> = mset xs" using Suc.prems j by (rule mset_swapAt)
  finally show ?case by (simp only: shuffleLoop.simps j_def)
qed

lemma mset_shuffle: "mset (tiles (shuffle rnd b)) = mset (tiles b)"
proof (cases "tiles b")
  case Nil
  then show ?thesis by (simp add: shuffle_def)
next
  case (Cons t ts)
  then have "length (tiles b) - 1 < length (tiles b)" by simp
  then have "mset (shuffleLoop rnd (length (tiles b) - 1) (tiles b)) = mset (tiles b)"
    by (rule mset_shuffleLoop)
  then show ?thesis by (simp add: shuffle_def)
qed

lemma length_shuffle: "length (tiles (shuffle rnd b)) = length (tiles b)"
  using mset_shuffle [of rnd b] by (rule mset_eq_length)

lemma unshuffled_ids: "map id_t (tiles unshuffled) = [0..111]"
  by code_simp

lemma unshuffled_blanks: "map points (filter isBlank (tiles unshuffled)) = [0, 0]"
  by code_simp

lemma table_total: "sum_list (map dcount TILE_DEFINITIONS) = 112"
  by code_simp

lemma init_perm: "mset (tiles (init rnd)) = mset (tiles unshuffled)"
  by (simp add: init_def mset_shuffle)

lemma fresh_bag_blanks:
  "image_mset points (filter_mset isBlank (mset (tiles (init rnd)))) = {#0, 0#}"
proof -
  have "image_mset points (filter_mset isBlank (mset (tiles unshuffled))) =
        mset (map points (filter isBlank (tiles unshuffled)))"
    by simp
  then have "image_mset points (filter_mset isBlank (mset (tiles unshuffled))) = {#0, 0#}"
    by (simp only: unshuffled_blanks) simp
  then show ?thesis
    by (simp only: init_perm)
qed

text \<open>
  C10. A freshly constructed bag holds 112 tiles, the sum of the counts of the frequency
  table; two of them are blanks, both worth zero points; before the shuffle the identities
  are 0, 1, ..., 111 in this order, and the shuffle only permutes the tiles, so in the
  constructed bag the identities are pairwise distinct and are exactly the integers
  from 0 to 111.
\<close>

theorem fresh_bag_112_tiles:
  "sum_list (map dcount TILE_DEFINITIONS) = 112
   \<and> map id_t (tiles unshuffled) = [0..111]
   \<and> mset (tiles (init rnd)) = mset (tiles unshuffled)
   \<and> length (tiles (init rnd)) = 112
   \<and> distinct (map id_t (tiles (init rnd)))
   \<and> set (map id_t (tiles (init rnd))) = {0..111}
   \<and> image_mset points (filter_mset isBlank (mset (tiles (init rnd)))) = {#0, 0#}"
proof -
  have "image_mset id_t (mset (tiles (init rnd))) = image_mset id_t (mset (tiles unshuffled))"
    by (simp only: init_perm)
  then have "mset (map id_t (tiles (init rnd))) = mset (map id_t (tiles unshuffled))"
    by (simp only: mset_map)
  then have ids: "mset (map id_t (tiles (init rnd))) = mset [0..111]"
    by (simp only: unshuffled_ids)
  have "length (map id_t (tiles (init rnd))) = length [0..(111::int)]"
    using ids by (rule mset_eq_length)
  then have len: "length (tiles (init rnd)) = 112"
    by simp
  have "distinct (map id_t (tiles (init rnd))) \<longleftrightarrow> distinct [0..(111::int)]"
    using ids by (rule mset_eq_imp_distinct_iff)
  then have dist: "distinct (map id_t (tiles (init rnd)))"
    by simp
  have "set (map id_t (tiles (init rnd))) = set [0..(111::int)]"
    using ids by (rule mset_eq_setD)
  then have st: "set (map id_t (tiles (init rnd))) = {0..111}"
    by (simp only: set_upto)
  show ?thesis
    using table_total unshuffled_ids init_perm len dist st fresh_bag_blanks by blast
qed

text \<open>
  C8 as stated fails where the bag holds fewer tiles than the rack lacks: from an empty
  bag \<^verbatim>\<open>drawToFill(0)\<close> returns no tile, not seven.
\<close>

theorem drawToFill_empty_bag_counterexample:
  "length (fst (drawToFill 0 \<lparr>tiles = [], nextId = 112\<rparr>)) \<noteq> nat (max 0 (RACK_SIZE - 0))"
  by (simp add: drawToFill_def draw_def RACK_SIZE_def)

text \<open>
  C8, amended. For every bag and every current rack size, \<^verbatim>\<open>drawToFill\<close> returns
  \<open>max(0, RACK_SIZE - currentCount)\<close> tiles or all the tiles of the bag, whichever is
  fewer; the tiles returned are the front of the bag and the bag keeps the rest.
\<close>

theorem drawToFill_returns_min_of_need_and_bag:
  "length (fst (drawToFill currentCount b)) =
     min (nat (max 0 (RACK_SIZE - currentCount))) (length (tiles b))
   \<and> fst (drawToFill currentCount b) @ tiles (snd (drawToFill currentCount b)) = tiles b"
  by (auto simp: drawToFill_def draw_def Let_def min_def max_def)

subsection \<open>Starting a session\<close>

lemma rackPoints_foldl: "foldl (\<lambda>sum t. sum + points t) a r = a + sum_list (map points r)"
  by (induction r arbitrary: a) simp_all

lemma rackPoints_sum: "rackPoints r = sum_list (map points r)"
  by (simp add: rackPoints_def rackPoints_foldl)

lemma draw_seven: "draw RACK_SIZE b = (take 7 (tiles b), b\<lparr>tiles := drop 7 (tiles b)\<rparr>)"
proof -
  have "nat (min RACK_SIZE (int (length (tiles b)))) = min 7 (length (tiles b))"
    by (simp add: RACK_SIZE_def min_def)
  then show ?thesis
    by (simp add: draw_def Let_def min_def)
qed

lemma dealRacks_Cons:
  "dealRacks (p # ps) b =
     (p\<lparr>rack := take 7 (tiles b)\<rparr> # fst (dealRacks ps (b\<lparr>tiles := drop 7 (tiles b)\<rparr>)),
      snd (dealRacks ps (b\<lparr>tiles := drop 7 (tiles b)\<rparr>)))"
  by (simp add: draw_seven case_prod_beta)

lemma dealRacks_length: "length (fst (dealRacks ps b)) = length ps"
  by (induction ps arbitrary: b) (simp_all only: dealRacks.simps(1) dealRacks_Cons fst_conv list.size)

lemma dealRacks_bag: "tiles (snd (dealRacks ps b)) = drop (7 * length ps) (tiles b)"
proof (induction ps arbitrary: b)
  case Nil
  then show ?case by simp
next
  case (Cons p ps)
  have "tiles (snd (dealRacks ps (b\<lparr>tiles := drop 7 (tiles b)\<rparr>))) = drop (7 * length ps) (drop 7 (tiles b))"
    using Cons.IH [of "b\<lparr>tiles := drop 7 (tiles b)\<rparr>"] by simp
  then show ?case
    by (simp only: dealRacks_Cons snd_conv) (simp add: add.commute)
qed

lemma dealRacks_rack:
  "i < length ps \<Longrightarrow> rack (fst (dealRacks ps b) ! i) = take 7 (drop (7 * i) (tiles b))"
proof (induction ps arbitrary: b i)
  case Nil
  then show ?case by simp
next
  case (Cons p ps)
  show ?case
  proof (cases i)
    case 0
    then show ?thesis by (simp only: dealRacks_Cons fst_conv) simp
  next
    case (Suc k)
    with Cons.prems have k: "k < length ps" by simp
    have "rack (fst (dealRacks ps (b\<lparr>tiles := drop 7 (tiles b)\<rparr>)) ! k) =
          take 7 (drop (7 * k) (drop 7 (tiles b)))"
      using Cons.IH [OF k, of "b\<lparr>tiles := drop 7 (tiles b)\<rparr>"] by simp
    then show ?thesis using Suc
      by (simp only: dealRacks_Cons fst_conv) (simp add: add.commute)
  qed
qed

text \<open>
  C9. \<^verbatim>\<open>start\<close> throws exactly when the session has fewer than two participants, and
  then changes nothing. It looks at no phase: with two or more participants it succeeds
  whatever the phase was, sets the phase to playing, and gives participant number \<open>i\<close>
  a new rack, the next up to seven tiles of the bag (tiles \<open>7i\<close> to \<open>7i + 6\<close> of the
  bag as it was); the tiles of the former racks are dropped.
\<close>

theorem start_throws_iff_too_few_players:
  "(isl (fst (start g)) \<longleftrightarrow> length (players g) < 2)
   \<and> (length (players g) < 2 \<longrightarrow> start g = (Inl NeedTwoPlayers, g))
   \<and> (2 \<le> length (players g) \<longrightarrow>
        fst (start g) = Inr ()
        \<and> phase (snd (start g)) = playing
        \<and> length (players (snd (start g))) = length (players g)
        \<and> (\<forall>i < length (players g).
              rack (players (snd (start g)) ! i) = take 7 (drop (7 * i) (tiles (tileBag g))))
        \<and> tiles (tileBag (snd (start g))) = drop (7 * length (players g)) (tiles (tileBag g)))"
proof -
  have a: "isl (fst (start g)) \<longleftrightarrow> length (players g) < 2"
    by (simp add: start_def split: prod.splits)
  have b: "length (players g) < 2 \<longrightarrow> start g = (Inl NeedTwoPlayers, g)"
    by (simp add: start_def)
  have c: "fst (start g) = Inr ()
        \<and> phase (snd (start g)) = playing
        \<and> length (players (snd (start g))) = length (players g)
        \<and> (\<forall>i < length (players g).
              rack (players (snd (start g)) ! i) = take 7 (drop (7 * i) (tiles (tileBag g))))
        \<and> tiles (tileBag (snd (start g))) = drop (7 * length (players g)) (tiles (tileBag g))"
    if two: "2 \<le> length (players g)"
  proof -
    obtain ps b where d: "dealRacks (players g) (tileBag g) = (ps, b)"
      by (cases "dealRacks (players g) (tileBag g)")
    have s: "start g = (Inr (), startTurnTimer (g\<lparr>phase := playing, players := ps, tileBag := b\<rparr>))"
      using two d by (simp add: start_def)
    have ps: "ps = fst (dealRacks (players g) (tileBag g))" and bb: "b = snd (dealRacks (players g) (tileBag g))"
      using d by simp_all
    show ?thesis
      by (simp add: s startTurnTimer_def clearTurnTimer_def ps bb dealRacks_length dealRacks_rack dealRacks_bag)
  qed
  show ?thesis using a b c by blast
qed

theorem start_throws_iff_too_few_players_witness:
  "start (newGame noShuffle demoDictionary) = (Inl NeedTwoPlayers, newGame noShuffle demoDictionary)
   \<and> phase started = playing
   \<and> fst (start started) = Inr ()
   \<and> phase (snd (start started)) = playing
   \<and> map id_t (rack (players started ! 0)) = [0, 1, 2, 3, 4, 5, 6]
   \<and> map id_t (rack (players (snd (start started)) ! 0)) = [14, 15, 16, 17, 18, 19, 20]"
proof -
  have few: "length (players (newGame noShuffle demoDictionary)) < 2"
    by (simp add: newGame_def)
  have two: "2 \<le> length (players started)"
    by code_simp
  then have i: "0 < length (players started)"
    by linarith
  have ph: "phase started = playing"
    by code_simp
  have old: "map id_t (rack (players started ! 0)) = [0, 1, 2, 3, 4, 5, 6]"
    by code_simp
  have bag: "map id_t (take 7 (drop (7 * 0) (tiles (tileBag started)))) = [14, 15, 16, 17, 18, 19, 20]"
    by code_simp
  have a: "start (newGame noShuffle demoDictionary) = (Inl NeedTwoPlayers, newGame noShuffle demoDictionary)"
    using start_throws_iff_too_few_players [of "newGame noShuffle demoDictionary"] few by blast
  have b: "fst (start started) = Inr () \<and> phase (snd (start started)) = playing
      \<and> rack (players (snd (start started)) ! 0) = take 7 (drop (7 * 0) (tiles (tileBag started)))"
    using start_throws_iff_too_few_players [of started] two i by blast
  show ?thesis
    using a b ph old bag by simp
qed

subsection \<open>Failed intents\<close>

lemma playTiles_error_frame:
  "fst (playTiles pid placements g) = Inl e \<Longrightarrow> snd (playTiles pid placements g) = g"
  by (auto simp: playTiles_def Let_def split: option.splits if_splits sum.splits prod.splits)

lemma exchangeTiles_error_frame:
  "fst (exchangeTiles rnd pid tileIds g) = Inl e \<Longrightarrow> snd (exchangeTiles rnd pid tileIds g) = g"
  by (auto simp: exchangeTiles_def Let_def split: option.splits if_splits sum.splits prod.splits)

lemma pass_error_frame:
  "fst (pass pid g) = Inl e \<Longrightarrow>
     snd (pass pid g) = g \<or> snd (pass pid g) = g\<lparr>consecutivePasses := consecutivePasses g + 1\<rparr>"
  by (auto simp: pass_def passBody_def Let_def split: option.splits if_splits)

text \<open>
  C1. Whatever the message (a play, an exchange or a pass), whoever sends it and whatever
  the session, if handling it ends in an error then the board, every participant's rack,
  the bag and every participant's score are what they were before.
\<close>

theorem failed_intent_changes_nothing:
  assumes "fst (handleMessage rnd pid msg g) = Inl e"
  shows "board (snd (handleMessage rnd pid msg g)) = board g
       \<and> map rack (players (snd (handleMessage rnd pid msg g))) = map rack (players g)
       \<and> tileBag (snd (handleMessage rnd pid msg g)) = tileBag g
       \<and> map score (players (snd (handleMessage rnd pid msg g))) = map score (players g)"
proof (cases msg)
  case (PLAY_TILES placements)
  obtain r g' where p: "playTiles pid placements g = (r, g')"
    by (cases "playTiles pid placements g")
  with assms PLAY_TILES obtain e' where "r = Inl e'"
    by (cases r) (simp_all add: dropResult_def)
  with p have "snd (playTiles pid placements g) = g"
    using playTiles_error_frame [of pid placements g e'] by simp
  with p have "g' = g" by simp
  with p \<open>r = Inl e'\<close> PLAY_TILES show ?thesis by (simp add: dropResult_def)
next
  case (EXCHANGE_TILES tileIds)
  with assms have "snd (exchangeTiles rnd pid tileIds g) = g"
    using exchangeTiles_error_frame [of rnd pid tileIds g e] by simp
  with EXCHANGE_TILES show ?thesis by simp
next
  case PASS
  with assms have "snd (pass pid g) = g \<or> snd (pass pid g) = g\<lparr>consecutivePasses := consecutivePasses g + 1\<rparr>"
    using pass_error_frame [of pid g e] by simp
  with PASS show ?thesis by auto
qed

theorem failed_intent_changes_nothing_witness:
  "fst (handleMessage noShuffle ''aki'' (PLAY_TILES [placeAt 7 7 0]) started) = Inl FirstMoveTooShort
   \<and> (board (snd (handleMessage noShuffle ''aki'' (PLAY_TILES [placeAt 7 7 0]) started)) = board started
      \<and> map rack (players (snd (handleMessage noShuffle ''aki'' (PLAY_TILES [placeAt 7 7 0]) started)))
          = map rack (players started)
      \<and> tileBag (snd (handleMessage noShuffle ''aki'' (PLAY_TILES [placeAt 7 7 0]) started)) = tileBag started
      \<and> map score (players (snd (handleMessage noShuffle ''aki'' (PLAY_TILES [placeAt 7 7 0]) started)))
          = map score (players started))"
proof -
  have h: "fst (handleMessage noShuffle ''aki'' (PLAY_TILES [placeAt 7 7 0]) started) = Inl FirstMoveTooShort"
    by code_simp
  show ?thesis
    using h failed_intent_changes_nothing [OF h] by (rule conjI)
qed

subsection \<open>Exchanges and the pass counter\<close>

text \<open>
  C4 as stated fails: after Aki's pass the counter is 1, and Ben's successful exchange of
  tile 7 leaves it at 0, not at 1.
\<close>

theorem exchange_after_pass_counterexample:
  "fst (exchangeTiles noShuffle ''ben'' [7] afterPass) = Inr ()
   \<and> consecutivePasses afterPass = 1
   \<and> consecutivePasses (snd (exchangeTiles noShuffle ''ben'' [7] afterPass)) = 0"
proof -
  have a: "fst (exchangeTiles noShuffle ''ben'' [7] afterPass) = Inr ()"
    by code_simp
  have b: "consecutivePasses afterPass = 1"
    by code_simp
  have c: "consecutivePasses (snd (exchangeTiles noShuffle ''ben'' [7] afterPass)) = 0"
    by code_simp
  show ?thesis using a b c by simp
qed

text \<open>
  C4, amended. After every successful exchange the consecutive-pass counter is zero,
  whatever it was before; a zero-score exchange record of the acting participant is
  appended to the turn history, and the turn passes to the next participant in order.
\<close>

theorem successful_exchange_resets_pass_counter:
  assumes "fst (exchangeTiles rnd pid tileIds g) = Inr ()"
  shows "consecutivePasses (snd (exchangeTiles rnd pid tileIds g)) = 0
       \<and> turnHistory (snd (exchangeTiles rnd pid tileIds g)) =
           turnHistory g @ [\<lparr>playerId = pid, playerName = name (players g ! currentPlayerIndex g),
                             action = exchange_a, words = None, totalScore = 0\<rparr>]
       \<and> currentPlayerIndex (snd (exchangeTiles rnd pid tileIds g)) =
           (currentPlayerIndex g + 1) mod length (players g)
       \<and> phase (snd (exchangeTiles rnd pid tileIds g)) = playing"
  using assms
  by (auto simp: exchangeTiles_def Let_def assertTurn_def currentPlayerId_def advanceTurn_def
        startTurnTimer_def clearTurnTimer_def
      split: option.splits if_splits sum.splits prod.splits)

theorem successful_exchange_resets_pass_counter_witness:
  "fst (exchangeTiles noShuffle ''ben'' [7] afterPass) = Inr ()
   \<and> (consecutivePasses (snd (exchangeTiles noShuffle ''ben'' [7] afterPass)) = 0
       \<and> turnHistory (snd (exchangeTiles noShuffle ''ben'' [7] afterPass)) =
           turnHistory afterPass @ [\<lparr>playerId = ''ben'', playerName = name (players afterPass ! currentPlayerIndex afterPass),
                             action = exchange_a, words = None, totalScore = 0\<rparr>]
       \<and> currentPlayerIndex (snd (exchangeTiles noShuffle ''ben'' [7] afterPass)) =
           (currentPlayerIndex afterPass + 1) mod length (players afterPass)
       \<and> phase (snd (exchangeTiles noShuffle ''ben'' [7] afterPass)) = playing)"
proof -
  have h: "fst (exchangeTiles noShuffle ''ben'' [7] afterPass) = Inr ()"
    by code_simp
  show ?thesis
    using h successful_exchange_resets_pass_counter [OF h] by (rule conjI)
qed

subsection \<open>The words of a play and the cells placed\<close>

lemma dr_dc_nonneg: "0 \<le> dr_of d \<and> 0 \<le> dc_of d"
  by (simp add: dr_of_def dc_of_def)

lemma findStart_nonneg:
  "0 \<le> r \<Longrightarrow> 0 \<le> c \<Longrightarrow> 0 \<le> fst (findStart b d r c) \<and> 0 \<le> snd (findStart b d r c)"
proof (induction b d r c rule: findStart.induct)
  case (1 b d r c)
  show ?case
  proof (cases "r - dr_of d \<ge> 0 \<and> c - dc_of d \<ge> 0 \<and> at2 b (r - dr_of d) (c - dc_of d) \<noteq> None")
    case True
    then have "findStart b d r c = findStart b d (r - dr_of d) (c - dc_of d)"
      by (subst findStart.simps) simp
    with "1.IH" [OF True] True show ?thesis by simp
  next
    case False
    then have "findStart b d r c = (r, c)"
      by (subst findStart.simps) auto
    with "1.prems" show ?thesis by simp
  qed
qed

text \<open>
  Every tile of a run is the tile of the walked board at its cell, inside the grid, and
  is flagged new exactly if its cell is one of the new positions.
\<close>

lemma collectRun_tiles:
  "wt \<in> set (collectRun b np d r c) \<Longrightarrow> 0 \<le> r \<Longrightarrow> 0 \<le> c \<Longrightarrow>
     isNew wt = ((wt_row wt, wt_col wt) \<in> set np)
     \<and> at2 b (wt_row wt) (wt_col wt) = Some (wt_tile wt)
     \<and> inBounds (wt_row wt) (wt_col wt)"
proof (induction b np d r c rule: collectRun.induct)
  case (1 b np d r c)
  show ?case
  proof (cases "r < BOARD_SIZE \<and> c < BOARD_SIZE \<and> at2 b r c \<noteq> None")
    case False
    then have "collectRun b np d r c = []"
      by (subst collectRun.simps) auto
    with "1.prems" show ?thesis by simp
  next
    case True
    then have eq: "collectRun b np d r c =
        \<lparr>wt_tile = the (at2 b r c), wt_row = r, wt_col = c, isNew = ((r, c) \<in> set np)\<rparr>
          # collectRun b np d (r + dr_of d) (c + dc_of d)"
      by (subst collectRun.simps) simp
    from "1.prems"(1) eq
    consider (hd) "wt = \<lparr>wt_tile = the (at2 b r c), wt_row = r, wt_col = c, isNew = ((r, c) \<in> set np)\<rparr>"
      | (tl) "wt \<in> set (collectRun b np d (r + dr_of d) (c + dc_of d))"
      by auto
    then show ?thesis
    proof cases
      case hd
      with True "1.prems" show ?thesis by (auto simp: inBounds_def)
    next
      case tl
      have "0 \<le> r + dr_of d" "0 \<le> c + dc_of d"
        using "1.prems" dr_dc_nonneg [of d] by simp_all
      from "1.IH" [OF True tl this] show ?thesis .
    qed
  qed
qed

lemma getWordAt_tiles:
  assumes "getWordAt b r c d np = Some w" and "0 \<le> r" and "0 \<le> c" and "wt \<in> set (wf_tiles w)"
  shows "isNew wt = ((wt_row wt, wt_col wt) \<in> set np)
       \<and> at2 b (wt_row wt) (wt_col wt) = Some (wt_tile wt)
       \<and> inBounds (wt_row wt) (wt_col wt)"
proof -
  obtain r0 c0 where fs: "findStart b d r c = (r0, c0)"
    by (cases "findStart b d r c")
  with findStart_nonneg [OF assms(2,3), of b d] have nn: "0 \<le> r0" "0 \<le> c0"
    by simp_all
  from assms(1) fs have "wf_tiles w = collectRun b np d r0 c0"
    by (auto simp: getWordAt_def Let_def split: if_splits)
  with assms(4) have "wt \<in> set (collectRun b np d r0 c0)"
    by simp
  from collectRun_tiles [OF this nn] show ?thesis .
qed

lemma addWord_keeps:
  assumes "list_all Q (fst acc)" and "\<And>w. wo = Some w \<Longrightarrow> Q w"
  shows "list_all Q (fst (addWord d wo acc))"
  using assms by (cases acc) (auto simp: addWord_def Let_def split: option.splits)

lemma extract_fold_keeps:
  assumes "\<And>pt d w. pt \<in> set placed \<Longrightarrow> getWordAt b (pt_row pt) (pt_col pt) d np = Some w \<Longrightarrow> Q w"
      and "list_all Q (fst acc)"
  shows "list_all Q
     (fst (foldl (\<lambda>acc pt.
            addWord vertical (getWordAt b (pt_row pt) (pt_col pt) vertical np)
              (addWord horizontal (getWordAt b (pt_row pt) (pt_col pt) horizontal np) acc))
          acc placed))"
  using assms
proof (induction placed arbitrary: acc)
  case Nil
  then show ?case by simp
next
  case (Cons pt pts)
  have h: "list_all Q (fst (addWord horizontal (getWordAt b (pt_row pt) (pt_col pt) horizontal np) acc))"
    using Cons.prems(2) by (rule addWord_keeps) (rule Cons.prems(1) [of pt], simp_all)
  have v: "list_all Q (fst (addWord vertical (getWordAt b (pt_row pt) (pt_col pt) vertical np)
              (addWord horizontal (getWordAt b (pt_row pt) (pt_col pt) horizontal np) acc)))"
    using h by (rule addWord_keeps) (rule Cons.prems(1) [of pt], simp_all)
  have rest: "Q w" if "q \<in> set pts" and "getWordAt b (pt_row q) (pt_col q) d np = Some w" for q d w
    using that Cons.prems(1) [of q d w] by simp
  from Cons.IH [OF rest v] show ?case by simp
qed

lemma collectPlaced_positions:
  "collectPlaced b rt ps = Inr placed \<Longrightarrow>
     newPositionsOf placed = placedCells ps
     \<and> list_all (\<lambda>pt. inBounds (pt_row pt) (pt_col pt)) placed"
proof (induction ps arbitrary: placed)
  case Nil
  then show ?case by (simp add: newPositionsOf_def placedCells_def)
next
  case (Cons p ps)
  from Cons.prems obtain rest where r: "collectPlaced b rt ps = Inr rest"
    by (auto split: option.splits if_splits sum.splits)
  from Cons.IH [OF r] Cons.prems r show ?case
    by (auto simp: newPositionsOf_def placedCells_def inBounds_def split: option.splits if_splits)
qed

lemma collectPlaced_empty_cells:
  "collectPlaced b rt ps = Inr placed \<Longrightarrow> (r, c) \<in> set (placedCells ps) \<Longrightarrow> at2 b r c = None"
proof (induction ps arbitrary: placed)
  case Nil
  then show ?case by (simp add: placedCells_def)
next
  case (Cons p ps)
  from Cons.prems(1) obtain rest where r: "collectPlaced b rt ps = Inr rest"
    and e: "at2 b (row p) (col p) = None"
    by (auto split: option.splits if_splits sum.splits)
  from Cons.prems(2) have "(r, c) = (row p, col p) \<or> (r, c) \<in> set (placedCells ps)"
    by (auto simp: placedCells_def)
  with e Cons.IH [OF r] show ?case by auto
qed

text \<open>The scratch board differs from the board on the new positions only.\<close>

lemma tempBoard_other:
  assumes "list_all (\<lambda>pt. inBounds (pt_row pt) (pt_col pt)) placed"
      and "inBounds r c" and "(r, c) \<notin> set (newPositionsOf placed)"
  shows "at2 (tempBoardOf b placed) r c = at2 b r c"
  using assms unfolding tempBoardOf_def newPositionsOf_def
proof (induction placed arbitrary: b)
  case Nil
  then show ?case by simp
next
  case (Cons pt pts)
  from Cons.prems have ib: "inBounds (pt_row pt) (pt_col pt)" and ne: "(r, c) \<noteq> (pt_row pt, pt_col pt)"
    by auto
  have "at2 (set2 b (pt_row pt) (pt_col pt) (Some (pt_tile pt))) r c = at2 b r c"
    using ib Cons.prems(2) ne by (rule at2_set2_other)
  moreover have "at2 (foldl (\<lambda>tb pt. set2 tb (pt_row pt) (pt_col pt) (Some (pt_tile pt)))
                    (set2 b (pt_row pt) (pt_col pt) (Some (pt_tile pt))) pts) r c
          = at2 (set2 b (pt_row pt) (pt_col pt) (Some (pt_tile pt))) r c"
    using Cons.prems by (intro Cons.IH) simp_all
  ultimately show ?case by simp
qed

text \<open>
  In the words \<^verbatim>\<open>validate\<close> returns, a tile is flagged new exactly if its cell is a cell
  of the placements; such a cell was empty on the board, and a tile on any other cell is
  the tile the board had on that cell before.
\<close>

lemma validate_word_tiles:
  assumes v: "validate dict b ps rt isFirst = Inr wds"
  shows "list_all (\<lambda>w. list_all (\<lambda>wt.
            isNew wt = ((wt_row wt, wt_col wt) \<in> set (placedCells ps))
            \<and> (if (wt_row wt, wt_col wt) \<in> set (placedCells ps)
               then at2 b (wt_row wt) (wt_col wt) = None
               else at2 b (wt_row wt) (wt_col wt) = Some (wt_tile wt))) (wf_tiles w)) wds"
proof -
  from v obtain placed where cp: "collectPlaced b rt ps = Inr placed"
    by (auto simp: validate_def split: if_splits sum.splits)
  from v cp have wds: "wds = extractWords (tempBoardOf b placed) placed (newPositionsOf placed)"
    by (auto simp: validate_def Let_def split: if_splits sum.splits option.splits)
  from collectPlaced_positions [OF cp] have np: "newPositionsOf placed = placedCells ps"
    and ib: "list_all (\<lambda>pt. inBounds (pt_row pt) (pt_col pt)) placed"
    by simp_all
  define Q where "Q = (\<lambda>w :: WordFound. list_all (\<lambda>wt.
            isNew wt = ((wt_row wt, wt_col wt) \<in> set (placedCells ps))
            \<and> (if (wt_row wt, wt_col wt) \<in> set (placedCells ps)
               then at2 b (wt_row wt) (wt_col wt) = None
               else at2 b (wt_row wt) (wt_col wt) = Some (wt_tile wt))) (wf_tiles w))"
  have step: "Q w" if pt: "pt \<in> set placed"
    and g: "getWordAt (tempBoardOf b placed) (pt_row pt) (pt_col pt) d (newPositionsOf placed) = Some w"
    for pt d w
    unfolding Q_def list_all_iff
  proof
    fix wt assume wt: "wt \<in> set (wf_tiles w)"
    from pt ib have "0 \<le> pt_row pt" "0 \<le> pt_col pt"
      by (auto simp: list_all_iff inBounds_def)
    from getWordAt_tiles [OF g this wt]
    have n: "isNew wt = ((wt_row wt, wt_col wt) \<in> set (placedCells ps))"
      and t: "at2 (tempBoardOf b placed) (wt_row wt) (wt_col wt) = Some (wt_tile wt)"
      and wb: "inBounds (wt_row wt) (wt_col wt)"
      by (simp_all add: np)
    show "isNew wt = ((wt_row wt, wt_col wt) \<in> set (placedCells ps))
          \<and> (if (wt_row wt, wt_col wt) \<in> set (placedCells ps)
               then at2 b (wt_row wt) (wt_col wt) = None
               else at2 b (wt_row wt) (wt_col wt) = Some (wt_tile wt))"
    proof (cases "(wt_row wt, wt_col wt) \<in> set (placedCells ps)")
      case True
      with collectPlaced_empty_cells [OF cp] n show ?thesis by simp
    next
      case False
      then have "(wt_row wt, wt_col wt) \<notin> set (newPositionsOf placed)"
        by (simp add: np)
      from tempBoard_other [OF ib wb this, of b] t False n show ?thesis by simp
    qed
  qed
  have "list_all Q (extractWords (tempBoardOf b placed) placed (newPositionsOf placed))"
    unfolding extractWords_def by (rule extract_fold_keeps) (rule step, assumption+, simp)
  then show ?thesis
    unfolding wds Q_def .
qed

subsection \<open>Scoring a play\<close>

lemma scoreTile_spec:
  assumes "isNew wt = ((wt_row wt, wt_col wt) \<in> set cells)"
  shows "scoreTile layout (a, m) wt =
     (a + (if (wt_row wt, wt_col wt) \<in> set cells
           then tilePoints (wt_tile wt) * letterMultiplier (at2 layout (wt_row wt) (wt_col wt))
           else tilePoints (wt_tile wt)),
      m * (if (wt_row wt, wt_col wt) \<in> set cells
           then wordMultiplierOf (at2 layout (wt_row wt) (wt_col wt)) else 1))"
  using assms
  by (cases "at2 layout (wt_row wt) (wt_col wt)")
     (simp_all add: scoreTile_def letterMultiplier_def wordMultiplierOf_def)

lemma foldl_scoreTile:
  assumes "list_all (\<lambda>wt. isNew wt = ((wt_row wt, wt_col wt) \<in> set cells)) ts"
  shows "foldl (scoreTile layout) (a, m) ts =
     (a + specLetterSum layout cells ts, m * specWordMultiplier layout cells ts)"
  using assms
proof (induction ts arbitrary: a m)
  case Nil
  then show ?case by (simp add: specLetterSum_def specWordMultiplier_def)
next
  case (Cons wt ts)
  from Cons.prems have n: "isNew wt = ((wt_row wt, wt_col wt) \<in> set cells)"
    and rest: "list_all (\<lambda>wt. isNew wt = ((wt_row wt, wt_col wt) \<in> set cells)) ts"
    by simp_all
  show ?case
    by (simp only: foldl_Cons scoreTile_spec [OF n] Cons.IH [OF rest])
       (simp add: specLetterSum_def specWordMultiplier_def algebra_simps)
qed

lemma scoreWord_spec:
  assumes "list_all (\<lambda>wt. isNew wt = ((wt_row wt, wt_col wt) \<in> set cells)) (wf_tiles w)"
  shows "scoreWord layout w = specWordScore layout cells w"
  by (simp add: scoreWord_def specWordScore_def foldl_scoreTile [OF assms])

lemma foldl_scoreWords:
  "foldl (\<lambda>(totalScore, wordResults) w.
            (totalScore + scoreWord layout w, wordResults @ [(word w, scoreWord layout w)]))
     (t, rs) wds =
   (t + sum_list (map (scoreWord layout) wds), rs @ map (\<lambda>w. (word w, scoreWord layout w)) wds)"
  by (induction wds arbitrary: t rs) simp_all

lemma scoreWords_spec:
  assumes "list_all (\<lambda>w. list_all (\<lambda>wt. isNew wt = ((wt_row wt, wt_col wt) \<in> set cells)) (wf_tiles w)) wds"
  shows "scoreWords layout wds =
     (sum_list (map (specWordScore layout cells) wds), map (\<lambda>w. (word w, specWordScore layout cells w)) wds)"
proof -
  have eq: "map (scoreWord layout) wds = map (specWordScore layout cells) wds"
    using assms by (intro map_cong refl scoreWord_spec) (simp add: list_all_iff)
  have eq': "map (\<lambda>w. (word w, scoreWord layout w)) wds = map (\<lambda>w. (word w, specWordScore layout cells w)) wds"
    using assms by (intro map_cong refl) (simp add: list_all_iff scoreWord_spec)
  show ?thesis
    unfolding scoreWords_def foldl_scoreWords by (simp add: eq eq')
qed

text \<open>
  For a tile of the bag the point value that \<^verbatim>\<open>playTiles\<close> computes is the tile's
  \<^verbatim>\<open>points\<close>: the blanks of the bag have zero points.
\<close>

lemma bag_tile_points:
  assumes "t \<in> set (tiles (init rnd))"
  shows "tilePoints t = points t"
proof (cases "isBlank t")
  case False
  then show ?thesis by (simp add: tilePoints_def)
next
  case True
  with assms have "points t \<in># image_mset points (filter_mset isBlank (mset (tiles (init rnd))))"
    by simp
  then have "points t \<in># {#0, 0#}"
    by (simp only: fresh_bag_blanks)
  then have "points t = 0"
    by simp
  with True show ?thesis by (simp add: tilePoints_def)
qed

text \<open>
  C2 as stated fails for a play of seven tiles: Aki's opening with the whole rack forms
  one word, scored 14, and the turn total is 64, the word's score and the bonus of 50.
\<close>

theorem full_rack_total_counterexample:
  "fst (playTiles ''aki'' fullRackPlay started) =
     Inr ([([0x3044, 0x3044, 0x3044, 0x3044, 0x3044, 0x3046, 0x3046], 14)], 64)
   \<and> sum_list (map snd [([0x3044, 0x3044, 0x3044, 0x3044, 0x3044, 0x3046, 0x3046] :: jstring, 14 :: int)]) \<noteq> 64"
proof -
  have a: "fst (playTiles ''aki'' fullRackPlay started) =
     Inr ([([0x3044, 0x3044, 0x3044, 0x3044, 0x3044, 0x3046, 0x3046], 14)], 64)"
    by code_simp
  show ?thesis using a by simp
qed

text \<open>
  C2, amended. In every successful play the words scored are the words the validator
  returns. In these words the cells of this turn's placements were empty on the board
  before the play, and a tile on any other cell is the tile the board had there before.
  Each word has the score of the specification's rule: the sum of its tiles' points, a
  tile on a cell placed this turn multiplied by the letter multiplier of the cell, times
  the product of the word multipliers of the cells placed this turn (two for DW and for
  the start cell, three for TW); a tile placed in an earlier turn counts its points only,
  whatever its cell. The turn total is the sum of the words' scores, plus 50 when the
  play has exactly seven placements.
\<close>

theorem play_scores_words_by_multipliers:
  assumes "playTiles pid placements g = (Inr (wordResults, tot), g')"
  shows "\<exists>wds. validate (dictionary g) (board g) placements
               (rackMapOf (rack (players g ! currentPlayerIndex g))) (isFirstMove g) = Inr wds
            \<and> list_all (\<lambda>w. list_all (\<lambda>wt.
                  if (wt_row wt, wt_col wt) \<in> set (placedCells placements)
                  then at2 (board g) (wt_row wt) (wt_col wt) = None
                  else at2 (board g) (wt_row wt) (wt_col wt) = Some (wt_tile wt)) (wf_tiles w)) wds
            \<and> wordResults = map (\<lambda>w. (word w, specWordScore (bonusLayout g) (placedCells placements) w)) wds
            \<and> tot = sum_list (map snd wordResults)
                       + (if int (length placements) = RACK_SIZE then BINGO_BONUS else 0)"
proof -
  from assms obtain wds where
    v: "validate (dictionary g) (board g) placements
          (rackMapOf (rack (players g ! currentPlayerIndex g))) (isFirstMove g) = Inr wds"
    by (auto simp: playTiles_def Let_def split: option.splits if_splits sum.splits prod.splits)
  from validate_word_tiles [OF v]
  have new: "list_all (\<lambda>w. list_all (\<lambda>wt. isNew wt = ((wt_row wt, wt_col wt) \<in> set (placedCells placements)))
                (wf_tiles w)) wds"
    and old: "list_all (\<lambda>w. list_all (\<lambda>wt.
                  if (wt_row wt, wt_col wt) \<in> set (placedCells placements)
                  then at2 (board g) (wt_row wt) (wt_col wt) = None
                  else at2 (board g) (wt_row wt) (wt_col wt) = Some (wt_tile wt)) (wf_tiles w)) wds"
    by (simp_all add: list_all_iff)
  have sm: "sum_list (map snd (map (\<lambda>w. (word w, specWordScore (bonusLayout g) (placedCells placements) w)) wds)) =
            sum_list (map (specWordScore (bonusLayout g) (placedCells placements)) wds)"
    by (simp add: comp_def)
  from assms v have "wordResults = map (\<lambda>w. (word w, specWordScore (bonusLayout g) (placedCells placements) w)) wds
     \<and> tot = sum_list (map (specWordScore (bonusLayout g) (placedCells placements)) wds)
                + (if int (length placements) = RACK_SIZE then BINGO_BONUS else 0)"
    by (auto simp: playTiles_def Let_def scoreWords_spec [OF new]
        split: option.splits if_splits prod.splits)
  with v old sm show ?thesis by simp
qed

text \<open>
  Ben's answer to Aki's opening: tile 7 below the centre cell spells the word downwards
  with Aki's tile on the start cell. That tile was placed a turn earlier and the start
  cell's double does not count again: the word scores 1 + 1.
\<close>

theorem play_scores_words_by_multipliers_witness:
  "playTiles ''ben'' secondPlay afterFirstPlay = (Inr ([([0x3044, 0x3046], 2)], 2), afterSecondPlay)
   \<and> (\<exists>wds. validate (dictionary afterFirstPlay) (board afterFirstPlay) secondPlay
               (rackMapOf (rack (players afterFirstPlay ! currentPlayerIndex afterFirstPlay)))
               (isFirstMove afterFirstPlay) = Inr wds
            \<and> list_all (\<lambda>w. list_all (\<lambda>wt.
                  if (wt_row wt, wt_col wt) \<in> set (placedCells secondPlay)
                  then at2 (board afterFirstPlay) (wt_row wt) (wt_col wt) = None
                  else at2 (board afterFirstPlay) (wt_row wt) (wt_col wt) = Some (wt_tile wt)) (wf_tiles w)) wds
            \<and> [([0x3044, 0x3046], 2)] =
                map (\<lambda>w. (word w, specWordScore (bonusLayout afterFirstPlay) (placedCells secondPlay) w)) wds
            \<and> 2 = sum_list (map snd [([0x3044, 0x3046] :: jstring, 2 :: int)])
                       + (if int (length secondPlay) = RACK_SIZE then BINGO_BONUS else 0))"
proof -
  have f: "fst (playTiles ''ben'' secondPlay afterFirstPlay) = Inr ([([0x3044, 0x3046], 2)], 2)"
    by code_simp
  have h: "playTiles ''ben'' secondPlay afterFirstPlay = (Inr ([([0x3044, 0x3046], 2)], 2), afterSecondPlay)"
    unfolding afterSecondPlay_def f [symmetric] by simp
  show ?thesis
    using h play_scores_words_by_multipliers [OF h] by (rule conjI)
qed

subsection \<open>A lone tile\<close>









subsection \<open>Conservation of tiles\<close>

text \<open>
  C3 fails on the code. In the started session of 112 tiles, Aki's exchange that names
  tile 0 twice succeeds: the bag gives two tiles and takes the one tile back twice, the
  rack loses one tile and gains two, and the session then counts 113 tiles.
\<close>

theorem duplicate_exchange_adds_a_tile:
  "totalTiles started = 112
   \<and> fst (exchangeTiles noShuffle ''aki'' [0, 0] started) = Inr ()
   \<and> totalTiles (snd (exchangeTiles noShuffle ''aki'' [0, 0] started)) = 113"
proof -
  have a: "totalTiles started = 112"
    by code_simp
  have b: "fst (exchangeTiles noShuffle ''aki'' [0, 0] started) = Inr ()"
    by code_simp
  have c: "totalTiles (snd (exchangeTiles noShuffle ''aki'' [0, 0] started)) = 113"
    by code_simp
  show ?thesis using a b c by simp
qed

lemma rackLengths_endGame:
  "map (\<lambda>p. length (rack p)) (players (endGame g)) = map (\<lambda>p. length (rack p)) (players g)"
  by (simp add: endGame_def clearTurnTimer_def)

lemma totalTiles_endGame: "totalTiles (endGame g) = totalTiles g"
  by (simp add: totalTiles_def rackLengths_endGame) (simp add: endGame_def clearTurnTimer_def)

lemma totalTiles_checkGameEnd: "totalTiles (checkGameEnd g) = totalTiles g"
  by (simp add: checkGameEnd_def totalTiles_endGame)

lemma totalTiles_advanceTurn: "totalTiles (advanceTurn g) = totalTiles g"
  by (simp add: advanceTurn_def startTurnTimer_def clearTurnTimer_def totalTiles_def)

lemma totalTiles_passBody: "totalTiles (snd (passBody g)) = totalTiles g"
  by (simp add: passBody_def Let_def totalTiles_checkGameEnd totalTiles_advanceTurn)
     (simp add: totalTiles_def)

lemma totalTiles_pass: "totalTiles (snd (pass pid g)) = totalTiles g"
  by (simp add: pass_def totalTiles_passBody split: option.splits)

lemma find_Some_in_set: "find P xs = Some x \<Longrightarrow> x \<in> set xs \<and> P x"
  by (induction xs) (auto split: if_splits)

lemma findTiles_length:
  "findTiles r ids = Inr ts \<Longrightarrow> length ts = length ids \<and> set ids \<subseteq> id_t ` set r"
proof (induction ids arbitrary: ts)
  case Nil
  then show ?case by simp
next
  case (Cons i ids)
  from Cons.prems obtain t ts' where f: "find (\<lambda>t. id_t t = i) r = Some t"
    and rest: "findTiles r ids = Inr ts'" and ts: "ts = t # ts'"
    by (auto split: option.splits sum.splits)
  from find_Some_in_set [OF f] have "i \<in> id_t ` set r" by auto
  with Cons.IH [OF rest] ts show ?case by simp
qed

lemma length_filter_ids:
  assumes "distinct (map id_t r)" and "distinct ids" and "set ids \<subseteq> id_t ` set r"
  shows "length (filter (\<lambda>t. id_t t \<notin> set ids) r) + length ids = length r"
proof -
  have "length (filter (\<lambda>i. i \<in> set ids) (map id_t r)) = card ({i. i \<in> set ids} \<inter> set (map id_t r))"
    using assms(1) by (rule distinct_length_filter)
  also have "{i. i \<in> set ids} \<inter> set (map id_t r) = set ids"
    using assms(3) by auto
  also have "card (set ids) = length ids"
    using assms(2) by (rule distinct_card)
  finally have a: "length (filter (\<lambda>t. id_t t \<in> set ids) r) = length ids"
    by (simp add: filter_map comp_def)
  have "length (filter (\<lambda>t. id_t t \<in> set ids) r) + length (filter (\<lambda>t. \<not> id_t t \<in> set ids) r) = length r"
    by (rule sum_length_filter_compl)
  with a show ?thesis by simp
qed

lemma rackLengths_update:
  assumes "i < length ps"
  shows "sum_list (map (\<lambda>p. length (rack p)) (ps[i := q])) + length (rack (ps ! i))
       = sum_list (map (\<lambda>p. length (rack p)) ps) + length (rack q)"
  using assms
proof (induction ps arbitrary: i)
  case Nil
  then show ?case by simp
next
  case (Cons p ps)
  show ?case
  proof (cases i)
    case 0
    then show ?thesis by simp
  next
    case (Suc k)
    with Cons.prems have "k < length ps" by simp
    from Cons.IH [OF this] Suc show ?thesis by simp
  qed
qed

lemma exchange_bag_length:
  "exchange rnd ts b = Inr (drawn, b') \<Longrightarrow>
     length drawn = length ts \<and> length (tiles b') = length (tiles b)"
  by (auto simp: exchange_def draw_def Let_def length_shuffle min_def split: if_splits)

lemma totalTiles_exchangeTiles:
  assumes ok: "fst (exchangeTiles rnd pid tileIds g) = Inr ()"
      and d: "distinct tileIds"
      and dr: "distinct (map id_t (rack (players g ! currentPlayerIndex g)))"
  shows "totalTiles (snd (exchangeTiles rnd pid tileIds g)) = totalTiles g"
proof -
  define player where "player = players g ! currentPlayerIndex g"
  from ok obtain ts newTiles bag' where
      idx: "currentPlayerIndex g < length (players g)"
    and ft: "findTiles (rack player) tileIds = Inr ts"
    and ex: "exchange rnd ts (tileBag g) = Inr (newTiles, bag')"
    and res: "snd (exchangeTiles rnd pid tileIds g) =
        advanceTurn (g\<lparr>tileBag := bag',
                        players := (players g)[currentPlayerIndex g :=
                          player\<lparr>rack := filter (\<lambda>t. id_t t \<notin> set tileIds) (rack player) @ newTiles\<rparr>],
                        consecutivePasses := 0,
                        turnHistory := turnHistory g @
                          [\<lparr>playerId = id_p player, playerName = name player,
                            action = exchange_a, words = None, totalScore = 0\<rparr>]\<rparr>)"
    by (auto simp: exchangeTiles_def Let_def player_def
        split: option.splits if_splits sum.splits prod.splits)
  from findTiles_length [OF ft] have lt: "length ts = length tileIds"
    and sub: "set tileIds \<subseteq> id_t ` set (rack player)" by simp_all
  from exchange_bag_length [OF ex] have ln: "length newTiles = length ts"
    and lb: "length (tiles bag') = length (tiles (tileBag g))" by simp_all
  have kept: "length (filter (\<lambda>t. id_t t \<notin> set tileIds) (rack player)) + length tileIds = length (rack player)"
    using dr d sub unfolding player_def [symmetric] by (rule length_filter_ids)
  have "sum_list (map (\<lambda>p. length (rack p)) ((players g)[currentPlayerIndex g :=
          player\<lparr>rack := filter (\<lambda>t. id_t t \<notin> set tileIds) (rack player) @ newTiles\<rparr>]))
        + length (rack player)
      = sum_list (map (\<lambda>p. length (rack p)) (players g))
        + length (rack (player\<lparr>rack := filter (\<lambda>t. id_t t \<notin> set tileIds) (rack player) @ newTiles\<rparr>))"
    unfolding player_def using idx by (rule rackLengths_update)
  then have "sum_list (map (\<lambda>p. length (rack p)) ((players g)[currentPlayerIndex g :=
          player\<lparr>rack := filter (\<lambda>t. id_t t \<notin> set tileIds) (rack player) @ newTiles\<rparr>]))
      = sum_list (map (\<lambda>p. length (rack p)) (players g))"
    using kept ln lt by simp
  then show ?thesis
    by (simp add: res totalTiles_advanceTurn) (simp add: totalTiles_def lb)
qed

lemma length_filter_update:
  "i < length xs \<Longrightarrow> \<not> P (xs ! i) \<Longrightarrow> P v \<Longrightarrow>
     length (filter P (xs[i := v])) = Suc (length (filter P xs))"
proof (induction xs arbitrary: i)
  case Nil
  then show ?case by simp
next
  case (Cons x xs)
  show ?case
  proof (cases i)
    case 0
    with Cons.prems show ?thesis by simp
  next
    case (Suc k)
    with Cons.prems have "k < length xs" "\<not> P (xs ! k)" by simp_all
    from Cons.IH [OF this Cons.prems(3)] Suc show ?thesis by simp
  qed
qed

lemma sum_list_map_update_Suc:
  "i < length xs \<Longrightarrow> f y = Suc (f (xs ! i)) \<Longrightarrow>
     sum_list (map f (xs[i := y])) = Suc (sum_list (map f xs))"
proof (induction xs arbitrary: i)
  case Nil
  then show ?case by simp
next
  case (Cons x xs)
  show ?case
  proof (cases i)
    case 0
    with Cons.prems show ?thesis by simp
  next
    case (Suc k)
    with Cons.prems have "k < length xs" "f y = Suc (f (xs ! k))" by simp_all
    from Cons.IH [OF this] Suc show ?thesis by simp
  qed
qed

lemma tilesOnBoard_rows:
  "tilesOnBoard b = sum_list (map (\<lambda>r. length (filter (\<lambda>cell. cell \<noteq> None) r)) b)"
  by (simp add: tilesOnBoard_def filter_concat length_concat comp_def)

lemma tilesOnBoard_set2:
  assumes "nat r < length b" and "nat c < length (b ! nat r)" and "at2 b r c = None"
  shows "tilesOnBoard (set2 b r c (Some t)) = Suc (tilesOnBoard b)"
proof -
  have "length (filter (\<lambda>cell. cell \<noteq> None) ((b ! nat r)[nat c := Some t]))
        = Suc (length (filter (\<lambda>cell. cell \<noteq> None) (b ! nat r)))"
    using assms(2,3) by (intro length_filter_update) (simp_all add: at2_def)
  with assms(1) show ?thesis
    unfolding tilesOnBoard_rows set2_def by (intro sum_list_map_update_Suc)
qed

lemma collectPlaced_cells:
  "collectPlaced b rt ps = Inr placed \<Longrightarrow>
     list_all (\<lambda>p. rt (tileId p) \<noteq> None \<and> inBounds (row p) (col p) \<and> at2 b (row p) (col p) = None) ps"
proof (induction ps arbitrary: placed)
  case Nil
  then show ?case by simp
next
  case (Cons p ps)
  from Cons.prems obtain rest where "collectPlaced b rt ps = Inr rest"
    by (auto split: option.splits if_splits sum.splits)
  from Cons.IH [OF this] Cons.prems show ?case
    by (auto simp: inBounds_def split: option.splits if_splits sum.splits)
qed

lemma tilesOnBoard_placements:
  assumes "squareBoard b"
      and "list_all (\<lambda>p. inBounds (row p) (col p) \<and> at2 b (row p) (col p) = None) ps"
      and "distinct (map (\<lambda>p. (row p, col p)) ps)"
  shows "tilesOnBoard (foldl (placeOnBoard rm) b ps) = tilesOnBoard b + length ps"
  using assms
proof (induction ps arbitrary: b)
  case Nil
  then show ?case by simp
next
  case (Cons p ps)
  define b' where "b' = placeOnBoard rm b p"
  from Cons.prems have ib: "inBounds (row p) (col p)" and em: "at2 b (row p) (col p) = None"
    by simp_all
  from squareBoard_index [OF Cons.prems(1) ib]
  have idx: "nat (row p) < length b" "nat (col p) < length (b ! nat (row p))" by simp_all
  have cnt: "tilesOnBoard b' = Suc (tilesOnBoard b)"
    unfolding b'_def placeOnBoard_def Let_def using idx em by (rule tilesOnBoard_set2)
  have sq: "squareBoard b'"
    unfolding b'_def placeOnBoard_def Let_def using Cons.prems(1) by (rule squareBoard_set2)
  have rest: "list_all (\<lambda>q. inBounds (row q) (col q) \<and> at2 b' (row q) (col q) = None) ps"
    unfolding list_all_iff
  proof
    fix q assume q: "q \<in> set ps"
    with Cons.prems(2) have qb: "inBounds (row q) (col q)" and qe: "at2 b (row q) (col q) = None"
      by (simp_all add: list_all_iff)
    have "(row q, col q) \<in> (\<lambda>p. (row p, col p)) ` set ps"
      by (rule image_eqI [where x = q]) (simp_all add: q)
    with Cons.prems(3) have "(row q, col q) \<noteq> (row p, col p)"
      by auto
    with ib qb have "at2 b' (row q) (col q) = at2 b (row q) (col q)"
      unfolding b'_def placeOnBoard_def Let_def by (intro at2_set2_other)
    with qb qe show "inBounds (row q) (col q) \<and> at2 b' (row q) (col q) = None"
      by simp
  qed
  from Cons.prems(3) have "distinct (map (\<lambda>p. (row p, col p)) ps)" by simp
  from Cons.IH [OF sq rest this] cnt show ?case
    by (simp add: b'_def)
qed

lemma rackMapOf_Some: "rackMapOf r i = Some t \<Longrightarrow> i \<in> id_t ` set r"
  unfolding rackMapOf_def by (drule map_of_SomeD) auto

lemma drawToFill_lengths:
  "drawToFill n b = (drawn, b') \<Longrightarrow> length drawn + length (tiles b') = length (tiles b)"
  by (auto simp: drawToFill_def draw_def Let_def split: if_splits)

lemma totalTiles_playTiles:
  assumes ok: "fst (playTiles pid placements g) = Inr res"
      and d: "distinct (map tileId placements)"
      and dc: "distinct (map (\<lambda>p. (row p, col p)) placements)"
      and dr: "distinct (map id_t (rack (players g ! currentPlayerIndex g)))"
      and sq: "squareBoard (board g)"
  shows "totalTiles (snd (playTiles pid placements g)) = totalTiles g"
proof -
  define player where "player = players g ! currentPlayerIndex g"
  define kept where "kept = filter (\<lambda>t. id_t t \<notin> set (map tileId placements)) (rack player)"
  from ok obtain wds drawn bag' tot wr where
      idx: "currentPlayerIndex g < length (players g)"
    and v: "validate (dictionary g) (board g) placements (rackMapOf (rack player)) (isFirstMove g) = Inr wds"
    and dtf: "drawToFill (int (length kept)) (tileBag g) = (drawn, bag')"
    and res: "snd (playTiles pid placements g) =
        checkGameEnd (advanceTurn (g\<lparr>board := foldl (placeOnBoard (rackMapOf (rack player))) (board g) placements,
                        players := (players g)[currentPlayerIndex g :=
                          player\<lparr>rack := kept @ drawn, score := score player + tot\<rparr>],
                        tileBag := bag',
                        isFirstMove := False,
                        consecutivePasses := 0,
                        turnHistory := turnHistory g @
                          [\<lparr>playerId = id_p player, playerName = name player,
                            action = play, words = Some wr, totalScore = tot\<rparr>]\<rparr>))"
    by (auto simp: playTiles_def Let_def player_def kept_def
        split: option.splits if_splits sum.splits prod.splits)
  from v obtain placed where cp: "collectPlaced (board g) (rackMapOf (rack player)) placements = Inr placed"
    by (auto simp: validate_def split: if_splits sum.splits)
  from collectPlaced_cells [OF cp]
  have cells: "list_all (\<lambda>p. rackMapOf (rack player) (tileId p) \<noteq> None
                   \<and> inBounds (row p) (col p) \<and> at2 (board g) (row p) (col p) = None) placements" .
  then have cells': "list_all (\<lambda>p. inBounds (row p) (col p) \<and> at2 (board g) (row p) (col p) = None) placements"
    by (simp add: list_all_iff)
  have bd: "tilesOnBoard (foldl (placeOnBoard (rackMapOf (rack player))) (board g) placements)
            = tilesOnBoard (board g) + length placements"
    using sq cells' dc by (rule tilesOnBoard_placements)
  have sub: "set (map tileId placements) \<subseteq> id_t ` set (rack player)"
    using cells by (auto simp: list_all_iff dest: rackMapOf_Some)
  have kl: "length kept + length (map tileId placements) = length (rack player)"
    unfolding kept_def using dr d sub unfolding player_def [symmetric] by (rule length_filter_ids)
  from drawToFill_lengths [OF dtf] have bl: "length drawn + length (tiles bag') = length (tiles (tileBag g))" .
  have "sum_list (map (\<lambda>p. length (rack p)) ((players g)[currentPlayerIndex g :=
          player\<lparr>rack := kept @ drawn, score := score player + tot\<rparr>]))
        + length (rack player)
      = sum_list (map (\<lambda>p. length (rack p)) (players g))
        + length (rack (player\<lparr>rack := kept @ drawn, score := score player + tot\<rparr>))"
    unfolding player_def using idx by (rule rackLengths_update)
  then have rk: "sum_list (map (\<lambda>p. length (rack p)) ((players g)[currentPlayerIndex g :=
          player\<lparr>rack := kept @ drawn, score := score player + tot\<rparr>]))
        + length placements
      = sum_list (map (\<lambda>p. length (rack p)) (players g)) + length drawn"
    using kl by simp
  show ?thesis
    unfolding res totalTiles_checkGameEnd totalTiles_advanceTurn
    using rk bl bd by (simp add: totalTiles_def)
qed

text \<open>
  The tile count is lost through duplicates only: a successful message that names no
  tile identity twice and no cell twice, in a session whose board is 15 by 15 and whose
  current rack has no identity twice, leaves the number of tiles in bag, racks and board
  as it was.
\<close>

lemma duplicate_free_intents_conserve_tiles:
  assumes "fst (handleMessage rnd pid msg g) = Inr ()"
      and "namesEachTileOnce msg"
      and "distinct (map id_t (rack (players g ! currentPlayerIndex g)))"
      and "squareBoard (board g)"
  shows "totalTiles (snd (handleMessage rnd pid msg g)) = totalTiles g"
proof (cases msg)
  case (PLAY_TILES placements)
  obtain r g' where p: "playTiles pid placements g = (r, g')"
    by (cases "playTiles pid placements g")
  with assms(1) PLAY_TILES obtain res where "r = Inr res"
    by (cases r) (simp_all add: dropResult_def)
  with p have "fst (playTiles pid placements g) = Inr res" by simp
  from totalTiles_playTiles [OF this] assms(2,3,4) PLAY_TILES
  have "totalTiles (snd (playTiles pid placements g)) = totalTiles g" by simp
  with p \<open>r = Inr res\<close> PLAY_TILES show ?thesis by (simp add: dropResult_def)
next
  case (EXCHANGE_TILES tileIds)
  with assms totalTiles_exchangeTiles [of rnd pid tileIds g] show ?thesis by simp
next
  case PASS
  then show ?thesis by (simp add: totalTiles_pass)
qed

subsection \<open>The end of the game\<close>

lemma endGame_effect:
  "phase (endGame g) = finished
   \<and> players (endGame g) = map (\<lambda>p. p\<lparr>score := score p - sum_list (map points (rack p))\<rparr>) (players g)
   \<and> turnHistory (endGame g) = turnHistory g
   \<and> consecutivePasses (endGame g) = consecutivePasses g
   \<and> tileBag (endGame g) = tileBag g"
  by (simp add: endGame_def clearTurnTimer_def rackPoints_sum)

lemma endCondition_endGame: "endCondition (endGame g) = endCondition g"
  by (simp add: endCondition_def endGame_effect list_ex_iff)

lemma advanceTurn_effect:
  "players (advanceTurn g) = players g \<and> turnHistory (advanceTurn g) = turnHistory g
   \<and> consecutivePasses (advanceTurn g) = consecutivePasses g \<and> tileBag (advanceTurn g) = tileBag g
   \<and> phase (advanceTurn g) = phase g"
  by (simp add: advanceTurn_def startTurnTimer_def clearTurnTimer_def)

lemma endCondition_advanceTurn: "endCondition (advanceTurn g) = endCondition g"
  by (simp add: endCondition_def advanceTurn_effect)

lemma checkGameEnd_endCondition: "checkGameEnd g = (if endCondition g then endGame g else g)"
  by (auto simp: checkGameEnd_def endCondition_def)

text \<open>
  How \<^verbatim>\<open>pass\<close>, \<^verbatim>\<open>forcePass\<close> and \<^verbatim>\<open>playTiles\<close> finish: the turn advances and the end
  conditions are checked, once.
\<close>

lemma finishTurn_effect:
  assumes "phase g1 = playing"
  shows "(phase (checkGameEnd (advanceTurn g1)) = finished \<longleftrightarrow> endCondition (checkGameEnd (advanceTurn g1)))
       \<and> (phase (checkGameEnd (advanceTurn g1)) = finished \<or> phase (checkGameEnd (advanceTurn g1)) = playing)
       \<and> turnHistory (checkGameEnd (advanceTurn g1)) = turnHistory g1
       \<and> players (checkGameEnd (advanceTurn g1)) =
           map (\<lambda>p. p\<lparr>score := score p -
                  (if phase (checkGameEnd (advanceTurn g1)) = finished then sum_list (map points (rack p)) else 0)\<rparr>)
             (players g1)"
proof (cases "endCondition (advanceTurn g1)")
  case True
  then have "checkGameEnd (advanceTurn g1) = endGame (advanceTurn g1)"
    by (simp add: checkGameEnd_endCondition)
  with True show ?thesis
    by (simp add: endCondition_endGame endGame_effect advanceTurn_effect)
next
  case False
  then have "checkGameEnd (advanceTurn g1) = advanceTurn g1"
    by (simp add: checkGameEnd_endCondition)
  with False assms show ?thesis
    by (simp add: advanceTurn_effect map_idI)
qed

lemma passBody_adjusts:
  assumes "phase g = playing" and "fst (passBody g) = Inr ()"
  shows "(phase (snd (passBody g)) = finished \<longleftrightarrow> endCondition (snd (passBody g)))
       \<and> (phase (snd (passBody g)) = finished \<or> phase (snd (passBody g)) = playing)
       \<and> map score (players (snd (passBody g))) =
           map (\<lambda>i. score (players g ! i)
                  + (if i = currentPlayerIndex g then totalScore (last (turnHistory (snd (passBody g)))) else 0)
                  - (if phase (snd (passBody g)) = finished
                     then sum_list (map points (rack (players (snd (passBody g)) ! i))) else 0))
             [0..<length (players g)]"
proof -
  define g1 where "g1 = g\<lparr>consecutivePasses := consecutivePasses g + 1,
      turnHistory := turnHistory g @
        [\<lparr>playerId = id_p (players g ! currentPlayerIndex g), playerName = name (players g ! currentPlayerIndex g),
          action = pass_a, words = None, totalScore = 0\<rparr>]\<rparr>"
  define g2 where "g2 = checkGameEnd (advanceTurn g1)"
  from assms(2) have res: "snd (passBody g) = g2"
    by (auto simp: passBody_def Let_def g1_def g2_def split: if_splits)
  have ph: "phase g1 = playing"
    using assms(1) by (simp add: g1_def)
  note ft = finishTurn_effect [OF ph, folded g2_def]
  from ft have pl: "players g2 = map (\<lambda>p. p\<lparr>score := score p -
                  (if phase g2 = finished then sum_list (map points (rack p)) else 0)\<rparr>) (players g)"
    by (simp add: g1_def)
  from ft have lst: "totalScore (last (turnHistory g2)) = 0"
    by (simp add: g1_def)
  have sc: "map score (players g2) =
           map (\<lambda>i. score (players g ! i)
                  + (if i = currentPlayerIndex g then totalScore (last (turnHistory g2)) else 0)
                  - (if phase g2 = finished then sum_list (map points (rack (players g2 ! i))) else 0))
             [0..<length (players g)]"
    by (rule nth_equalityI) (simp_all add: pl lst)
  from ft have a: "phase g2 = finished \<longleftrightarrow> endCondition g2"
    and b: "phase g2 = finished \<or> phase g2 = playing"
    by blast+
  show ?thesis
    unfolding res by (intro conjI a b sc)
qed

lemma playTiles_adjusts:
  assumes "fst (playTiles pid placements g) = Inr res"
  shows "(phase (snd (playTiles pid placements g)) = finished \<longleftrightarrow> endCondition (snd (playTiles pid placements g)))
       \<and> (phase (snd (playTiles pid placements g)) = finished \<or> phase (snd (playTiles pid placements g)) = playing)
       \<and> map score (players (snd (playTiles pid placements g))) =
           map (\<lambda>i. score (players g ! i)
                  + (if i = currentPlayerIndex g
                     then totalScore (last (turnHistory (snd (playTiles pid placements g)))) else 0)
                  - (if phase (snd (playTiles pid placements g)) = finished
                     then sum_list (map points (rack (players (snd (playTiles pid placements g)) ! i))) else 0))
             [0..<length (players g)]"
proof -
  define player where "player = players g ! currentPlayerIndex g"
  define kept where "kept = filter (\<lambda>t. id_t t \<notin> set (map tileId placements)) (rack player)"
  from assms obtain drawn bag' tot wr where
      idx: "currentPlayerIndex g < length (players g)"
    and ph0: "phase g = playing"
    and out0: "snd (playTiles pid placements g) =
        checkGameEnd (advanceTurn (g\<lparr>board := foldl (placeOnBoard (rackMapOf (rack player))) (board g) placements,
                        players := (players g)[currentPlayerIndex g :=
                          player\<lparr>rack := kept @ drawn, score := score player + tot\<rparr>],
                        tileBag := bag',
                        isFirstMove := False,
                        consecutivePasses := 0,
                        turnHistory := turnHistory g @
                          [\<lparr>playerId = id_p player, playerName = name player,
                            action = play, words = Some wr, totalScore = tot\<rparr>]\<rparr>))"
    by (auto simp: playTiles_def Let_def player_def kept_def assertTurn_def
        split: option.splits if_splits sum.splits prod.splits)
  define g1 where "g1 = g\<lparr>board := foldl (placeOnBoard (rackMapOf (rack player))) (board g) placements,
                        players := (players g)[currentPlayerIndex g :=
                          player\<lparr>rack := kept @ drawn, score := score player + tot\<rparr>],
                        tileBag := bag',
                        isFirstMove := False,
                        consecutivePasses := 0,
                        turnHistory := turnHistory g @
                          [\<lparr>playerId = id_p player, playerName = name player,
                            action = play, words = Some wr, totalScore = tot\<rparr>]\<rparr>"
  have ph: "phase g1 = playing"
    using ph0 by (simp add: g1_def)
  have pl1: "players g1 = (players g)[currentPlayerIndex g := player\<lparr>rack := kept @ drawn, score := score player + tot\<rparr>]"
    by (simp add: g1_def)
  have h1: "totalScore (last (turnHistory g1)) = tot"
    by (simp add: g1_def)
  have out: "snd (playTiles pid placements g) = checkGameEnd (advanceTurn g1)"
    unfolding g1_def by (rule out0)
  define g2 where "g2 = checkGameEnd (advanceTurn g1)"
  note ft = finishTurn_effect [OF ph, folded g2_def]
  from ft have pl: "players g2 = map (\<lambda>p. p\<lparr>score := score p -
                  (if phase g2 = finished then sum_list (map points (rack p)) else 0)\<rparr>) (players g1)"
    by simp
  from ft h1 have lst: "totalScore (last (turnHistory g2)) = tot"
    by simp
  have sc: "map score (players g2) =
           map (\<lambda>i. score (players g ! i)
                  + (if i = currentPlayerIndex g then totalScore (last (turnHistory g2)) else 0)
                  - (if phase g2 = finished then sum_list (map points (rack (players g2 ! i))) else 0))
             [0..<length (players g)]"
  proof (rule nth_equalityI)
    show "length (map score (players g2)) = length (map (\<lambda>i. score (players g ! i)
                  + (if i = currentPlayerIndex g then totalScore (last (turnHistory g2)) else 0)
                  - (if phase g2 = finished then sum_list (map points (rack (players g2 ! i))) else 0))
             [0..<length (players g)])"
      by (simp add: pl pl1)
  next
    fix i assume "i < length (map score (players g2))"
    then have i: "i < length (players g)"
      by (simp add: pl pl1)
    show "map score (players g2) ! i = map (\<lambda>i. score (players g ! i)
                  + (if i = currentPlayerIndex g then totalScore (last (turnHistory g2)) else 0)
                  - (if phase g2 = finished then sum_list (map points (rack (players g2 ! i))) else 0))
             [0..<length (players g)] ! i"
      using i by (cases "i = currentPlayerIndex g") (simp_all add: pl pl1 lst player_def)
  qed
  from ft have a: "phase g2 = finished \<longleftrightarrow> endCondition g2"
    and b: "phase g2 = finished \<or> phase g2 = playing"
    by blast+
  show ?thesis
    unfolding out g2_def [symmetric] by (intro conjI a b sc)
qed

lemma exchangeTiles_adjusts:
  assumes "fst (exchangeTiles rnd pid tileIds g) = Inr ()"
  shows "(phase (snd (exchangeTiles rnd pid tileIds g)) = finished \<longleftrightarrow> endCondition (snd (exchangeTiles rnd pid tileIds g)))
       \<and> (phase (snd (exchangeTiles rnd pid tileIds g)) = finished \<or> phase (snd (exchangeTiles rnd pid tileIds g)) = playing)
       \<and> map score (players (snd (exchangeTiles rnd pid tileIds g))) =
           map (\<lambda>i. score (players g ! i)
                  + (if i = currentPlayerIndex g
                     then totalScore (last (turnHistory (snd (exchangeTiles rnd pid tileIds g)))) else 0)
                  - (if phase (snd (exchangeTiles rnd pid tileIds g)) = finished
                     then sum_list (map points (rack (players (snd (exchangeTiles rnd pid tileIds g)) ! i))) else 0))
             [0..<length (players g)]"
proof -
  define player where "player = players g ! currentPlayerIndex g"
  from assms obtain ts newTiles bag' r' where
      idx: "currentPlayerIndex g < length (players g)"
    and ne: "tileIds \<noteq> []"
    and enough: "length tileIds \<le> length (tiles (tileBag g))"
    and ft: "findTiles (rack player) tileIds = Inr ts"
    and ex: "exchange rnd ts (tileBag g) = Inr (newTiles, bag')"
    and ph: "phase g = playing"
    and out: "snd (exchangeTiles rnd pid tileIds g) =
        advanceTurn (g\<lparr>tileBag := bag',
                        players := (players g)[currentPlayerIndex g := player\<lparr>rack := r'\<rparr>],
                        consecutivePasses := 0,
                        turnHistory := turnHistory g @
                          [\<lparr>playerId = id_p player, playerName = name player,
                            action = exchange_a, words = None, totalScore = 0\<rparr>]\<rparr>)"
    by (auto simp: exchangeTiles_def Let_def player_def assertTurn_def remaining_def
        split: option.splits if_splits sum.splits prod.splits)
  from exchange_bag_length [OF ex] enough ne have bag: "tiles bag' \<noteq> []"
    by auto
  from idx have n: "0 < length (players g)"
    by linarith
  have nc: "\<not> endCondition (snd (exchangeTiles rnd pid tileIds g))"
    using bag n by (simp add: out endCondition_advanceTurn) (simp add: endCondition_def isEmpty_def)
  have p2: "phase (snd (exchangeTiles rnd pid tileIds g)) = playing"
    using ph by (simp add: out advanceTurn_effect)
  have sc: "map score (players (snd (exchangeTiles rnd pid tileIds g))) =
           map (\<lambda>i. score (players g ! i)
                  + (if i = currentPlayerIndex g
                     then totalScore (last (turnHistory (snd (exchangeTiles rnd pid tileIds g)))) else 0)
                  - (if phase (snd (exchangeTiles rnd pid tileIds g)) = finished
                     then sum_list (map points (rack (players (snd (exchangeTiles rnd pid tileIds g)) ! i))) else 0))
             [0..<length (players g)]"
    unfolding p2
  proof (rule nth_equalityI)
    show "length (map score (players (snd (exchangeTiles rnd pid tileIds g)))) =
          length (map (\<lambda>i. score (players g ! i)
                  + (if i = currentPlayerIndex g
                     then totalScore (last (turnHistory (snd (exchangeTiles rnd pid tileIds g)))) else 0)
                  - (if playing = finished
                     then sum_list (map points (rack (players (snd (exchangeTiles rnd pid tileIds g)) ! i))) else 0))
             [0..<length (players g)])"
      by (simp add: out advanceTurn_effect)
  next
    fix i assume "i < length (map score (players (snd (exchangeTiles rnd pid tileIds g))))"
    then have i: "i < length (players g)"
      by (simp add: out advanceTurn_effect)
    then show "map score (players (snd (exchangeTiles rnd pid tileIds g))) ! i =
          map (\<lambda>i. score (players g ! i)
                  + (if i = currentPlayerIndex g
                     then totalScore (last (turnHistory (snd (exchangeTiles rnd pid tileIds g)))) else 0)
                  - (if playing = finished
                     then sum_list (map points (rack (players (snd (exchangeTiles rnd pid tileIds g)) ! i))) else 0))
             [0..<length (players g)] ! i"
      by (cases "i = currentPlayerIndex g") (simp_all add: out advanceTurn_effect player_def)
  qed
  have a: "phase (snd (exchangeTiles rnd pid tileIds g)) = finished \<longleftrightarrow> endCondition (snd (exchangeTiles rnd pid tileIds g))"
    using nc p2 by simp
  have b: "phase (snd (exchangeTiles rnd pid tileIds g)) = finished \<or> phase (snd (exchangeTiles rnd pid tileIds g)) = playing"
    using p2 by simp
  show ?thesis
    by (intro conjI a b sc)
qed

text \<open>
  C6. Whatever moves a playing session on (a play, an exchange, a pass, the expiry of the
  turn timer), the session is finished afterwards exactly if an end condition holds, and
  every participant's score is then the score before, plus the turn's total for the
  participant who moved, minus the sum of the point values of the tiles left in the
  participant's rack, subtracted once; if the session is still playing, nothing is
  subtracted. A blank's point value is zero: the two blanks of a fresh bag have zero
  points.
\<close>

theorem game_end_subtracts_rack_points_once:
  assumes "phase g = playing" and "fst (step rnd ev g) = Inr ()"
  shows "(phase (snd (step rnd ev g)) = finished \<longleftrightarrow> endCondition (snd (step rnd ev g)))
       \<and> (phase (snd (step rnd ev g)) = finished \<or> phase (snd (step rnd ev g)) = playing)
       \<and> map score (players (snd (step rnd ev g))) =
           map (\<lambda>i. score (players g ! i)
                  + (if i = currentPlayerIndex g then totalScore (last (turnHistory (snd (step rnd ev g)))) else 0)
                  - (if phase (snd (step rnd ev g)) = finished
                     then sum_list (map points (rack (players (snd (step rnd ev g)) ! i))) else 0))
             [0..<length (players g)]
       \<and> image_mset points (filter_mset isBlank (mset (tiles (init rnd')))) = {#0, 0#}"
proof -
  have main: "(phase (snd (step rnd ev g)) = finished \<longleftrightarrow> endCondition (snd (step rnd ev g)))
       \<and> (phase (snd (step rnd ev g)) = finished \<or> phase (snd (step rnd ev g)) = playing)
       \<and> map score (players (snd (step rnd ev g))) =
           map (\<lambda>i. score (players g ! i)
                  + (if i = currentPlayerIndex g then totalScore (last (turnHistory (snd (step rnd ev g)))) else 0)
                  - (if phase (snd (step rnd ev g)) = finished
                     then sum_list (map points (rack (players (snd (step rnd ev g)) ! i))) else 0))
             [0..<length (players g)]"
  proof (cases ev)
    case TurnTimeout
    with assms have f: "fst (passBody g) = Inr ()" and e: "step rnd ev g = passBody g"
      by (simp_all add: turnTimerFires_def forcePass_def)
    show ?thesis
      unfolding e by (rule passBody_adjusts [OF assms(1) f])
  next
    case (Message pid msg)
    show ?thesis
    proof (cases msg)
      case PASS
      with Message assms(2) have f: "fst (passBody g) = Inr ()" and e: "step rnd ev g = passBody g"
        by (simp_all add: pass_def split: option.splits)
      show ?thesis
        unfolding e by (rule passBody_adjusts [OF assms(1) f])
    next
      case (EXCHANGE_TILES tileIds)
      with Message assms(2) have f: "fst (exchangeTiles rnd pid tileIds g) = Inr ()"
        and e: "step rnd ev g = exchangeTiles rnd pid tileIds g"
        by simp_all
      show ?thesis
        unfolding e by (rule exchangeTiles_adjusts [OF f])
    next
      case (PLAY_TILES placements)
      obtain r g' where p: "playTiles pid placements g = (r, g')"
        by (cases "playTiles pid placements g")
      with Message PLAY_TILES assms(2) obtain res where r: "r = Inr res"
        by (cases r) (simp_all add: dropResult_def)
      with p have f: "fst (playTiles pid placements g) = Inr res"
        and e: "snd (step rnd ev g) = snd (playTiles pid placements g)"
        using Message PLAY_TILES by (simp_all add: dropResult_def)
      show ?thesis
        unfolding e by (rule playTiles_adjusts [OF f])
    qed
  qed
  show ?thesis
    by (intro conjI main [THEN conjunct1] main [THEN conjunct2, THEN conjunct1]
          main [THEN conjunct2, THEN conjunct2] fresh_bag_blanks)
qed

text \<open>
  After three passes in a row Ben's pass is the fourth: the session of two is finished,
  and each score, zero before, is minus the seven points of the tiles in the rack.
\<close>

theorem game_end_subtracts_rack_points_once_witness:
  "phase afterThreePasses = playing
   \<and> fst (step noShuffle (Message ''ben'' PASS) afterThreePasses) = Inr ()
   \<and> phase (snd (step noShuffle (Message ''ben'' PASS) afterThreePasses)) = finished
   \<and> map score (players afterThreePasses) = [0, 0]
   \<and> map score (players (snd (step noShuffle (Message ''ben'' PASS) afterThreePasses))) = [- 7, - 7]
   \<and> map score (players (snd (step noShuffle (Message ''ben'' PASS) afterThreePasses))) =
           map (\<lambda>i. score (players afterThreePasses ! i)
                  + (if i = currentPlayerIndex afterThreePasses
                     then totalScore (last (turnHistory (snd (step noShuffle (Message ''ben'' PASS) afterThreePasses)))) else 0)
                  - (if phase (snd (step noShuffle (Message ''ben'' PASS) afterThreePasses)) = finished
                     then sum_list (map points (rack (players (snd (step noShuffle (Message ''ben'' PASS) afterThreePasses)) ! i))) else 0))
             [0..<length (players afterThreePasses)]"
proof -
  have a: "phase afterThreePasses = playing"
    by code_simp
  have b: "fst (step noShuffle (Message ''ben'' PASS) afterThreePasses) = Inr ()"
    by code_simp
  have c: "phase (snd (step noShuffle (Message ''ben'' PASS) afterThreePasses)) = finished"
    by code_simp
  have d: "map score (players afterThreePasses) = [0, 0]"
    by code_simp
  have e: "map score (players (snd (step noShuffle (Message ''ben'' PASS) afterThreePasses))) = [- 7, - 7]"
    by code_simp
  from game_end_subtracts_rack_points_once [OF a b]
  have f: "map score (players (snd (step noShuffle (Message ''ben'' PASS) afterThreePasses))) =
           map (\<lambda>i. score (players afterThreePasses ! i)
                  + (if i = currentPlayerIndex afterThreePasses
                     then totalScore (last (turnHistory (snd (step noShuffle (Message ''ben'' PASS) afterThreePasses)))) else 0)
                  - (if phase (snd (step noShuffle (Message ''ben'' PASS) afterThreePasses)) = finished
                     then sum_list (map points (rack (players (snd (step noShuffle (Message ''ben'' PASS) afterThreePasses)) ! i))) else 0))
             [0..<length (players afterThreePasses)]"
    by blast
  show ?thesis
    using a b c d e f by blast
qed

subsection \<open>Disconnection and the grace timer\<close>

lemma seats_setFirst: "map (\<lambda>p. (id_p p, name p, score p, rack p)) (setFirst pid v ps)
    = map (\<lambda>p. (id_p p, name p, score p, rack p)) ps"
  by (induction ps) simp_all

lemma seats_setConnected: "seats (setConnected pid v g) = seats g"
  by (simp add: seats_def setConnected_def seats_setFirst)

lemma map_of_update:
  "map_of (map (\<lambda>(k, p). if k = pid then (k, f p) else (k, p)) xs) k' =
     (if k' = pid then map_option f (map_of xs k') else map_of xs k')"
  by (induction xs) auto

lemma map_of_remove: "map_of (filter (\<lambda>(k, p). k \<noteq> pid) xs) pid = None"
  by (induction xs) auto

lemma map_of_remove_other: "k \<noteq> pid \<Longrightarrow> map_of (filter (\<lambda>(k, p). k \<noteq> pid) xs) k = map_of xs k"
  by (induction xs) auto

lemma map_of_snoc: "map_of xs h = None \<Longrightarrow> map_of (xs @ [(h, v)]) h = Some v"
  by (induction xs) (auto split: if_splits)

lemma game_clearTimeout: "game (clearTimeout h rm) = game rm"
  by (simp add: clearTimeout_def)

lemma rplayers_clearTimeout: "rplayers (clearTimeout h rm) = rplayers rm"
  by (simp add: clearTimeout_def)

lemma removePlayer_r_gone: "map_of (rplayers (removePlayer_r pid rm)) pid = None"
  by (simp add: removePlayer_r_def Let_def map_of_remove rplayers_clearTimeout
      split: option.splits)

lemma removePlayer_r_game:
  "phase (game rm) \<noteq> waiting \<Longrightarrow> game (removePlayer_r pid rm) = game rm"
  by (simp add: removePlayer_r_def Let_def game_clearTimeout split: option.splits)

lemma graceTimerFires_pending:
  assumes "map_of (timers rm) h = Some pid" and "phase (game rm) \<noteq> waiting"
  shows "fst (graceTimerFires h rm) = True
       \<and> map_of (rplayers (snd (graceTimerFires h rm))) pid = None
       \<and> game (snd (graceTimerFires h rm)) = game rm"
  using assms
  by (simp add: graceTimerFires_def removePlayer_r_gone removePlayer_r_game game_clearTimeout)

lemma handleDisconnect_playing:
  assumes "phase (game rm) = playing" and "map_of (rplayers rm) pid = Some p"
  shows "handleDisconnect pid rm =
           (False,
            (updatePlayer pid (\<lambda>q. q\<lparr>reconnectTimer := Some (nextTimer rm)\<rparr>)
               (rm\<lparr>game := setConnected pid False (game rm)\<rparr>))
              \<lparr>timers := timers rm @ [(nextTimer rm, pid)], nextTimer := nextTimer rm + 1\<rparr>)"
  using assms by (simp add: handleDisconnect_def Let_def setConnected_def)

text \<open>
  C7 as stated fails in its second half: Aki disconnects from the playing session and the
  grace timer fires; the caller is notified and Aki is gone from the room's connection
  map, but is still a participant of the game session.
\<close>

theorem timed_out_player_stays_in_session_counterexample:
  "fst (graceTimerFires 0 (snd (handleDisconnect ''aki'' demoRoom))) = True
   \<and> map_of (rplayers (snd (graceTimerFires 0 (snd (handleDisconnect ''aki'' demoRoom))))) ''aki'' = None
   \<and> ''aki'' \<in> set (map id_p (players (game (snd (graceTimerFires 0 (snd (handleDisconnect ''aki'' demoRoom)))))))"
proof -
  have a: "fst (graceTimerFires 0 (snd (handleDisconnect ''aki'' demoRoom))) = True"
    by code_simp
  have b: "map_of (rplayers (snd (graceTimerFires 0 (snd (handleDisconnect ''aki'' demoRoom))))) ''aki'' = None"
    by code_simp
  have c: "''aki'' \<in> set (map id_p (players (game (snd (graceTimerFires 0 (snd (handleDisconnect ''aki'' demoRoom)))))))"
    by code_simp
  show ?thesis using a b c by simp
qed

text \<open>
  C7, amended. A participant of a playing session who disconnects is not removed: a grace
  timer is armed. If the participant reconnects while it is pending, the timer is
  cancelled and every seat of the session (identity, name, score, rack, in the same
  order) and the current turn index are as before the disconnect. If the timer fires
  instead, the caller is notified and the participant is removed from the room's
  connection map only: the session, which is no longer waiting, keeps every seat with its
  score and rack, and the turn index.
\<close>

theorem reconnect_keeps_seat_and_timeout_keeps_session:
  assumes "phase (game rm) = playing"
      and "map_of (rplayers rm) pid = Some p"
      and "map_of (timers rm) (nextTimer rm) = None"
  shows "fst (handleDisconnect pid rm) = False
       \<and> map_of (timers (snd (handleDisconnect pid rm))) (nextTimer rm) = Some pid
       \<and> fst (reconnectPlayer pid w (snd (handleDisconnect pid rm))) = True
       \<and> seats (game (snd (reconnectPlayer pid w (snd (handleDisconnect pid rm))))) = seats (game rm)
       \<and> currentPlayerIndex (game (snd (reconnectPlayer pid w (snd (handleDisconnect pid rm)))))
           = currentPlayerIndex (game rm)
       \<and> map_of (timers (snd (reconnectPlayer pid w (snd (handleDisconnect pid rm))))) (nextTimer rm) = None
       \<and> fst (graceTimerFires (nextTimer rm) (snd (handleDisconnect pid rm))) = True
       \<and> map_of (rplayers (snd (graceTimerFires (nextTimer rm) (snd (handleDisconnect pid rm))))) pid = None
       \<and> seats (game (snd (graceTimerFires (nextTimer rm) (snd (handleDisconnect pid rm))))) = seats (game rm)
       \<and> currentPlayerIndex (game (snd (graceTimerFires (nextTimer rm) (snd (handleDisconnect pid rm)))))
           = currentPlayerIndex (game rm)"
proof -
  define rm1 where "rm1 = snd (handleDisconnect pid rm)"
  have hd: "fst (handleDisconnect pid rm) = False"
    and rm1: "rm1 = (updatePlayer pid (\<lambda>q. q\<lparr>reconnectTimer := Some (nextTimer rm)\<rparr>)
               (rm\<lparr>game := setConnected pid False (game rm)\<rparr>))
              \<lparr>timers := timers rm @ [(nextTimer rm, pid)], nextTimer := nextTimer rm + 1\<rparr>"
    using handleDisconnect_playing [OF assms(1,2)] by (simp_all add: rm1_def)
  have g1: "game rm1 = setConnected pid False (game rm)"
    by (simp add: rm1 updatePlayer_def)
  have t1: "timers rm1 = timers rm @ [(nextTimer rm, pid)]"
    by (simp add: rm1)
  have pend: "map_of (timers rm1) (nextTimer rm) = Some pid"
    unfolding t1 using assms(3) by (rule map_of_snoc)
  have ph1: "phase (game rm1) \<noteq> waiting"
    using assms(1) by (simp add: g1 setConnected_def)
  have p1: "map_of (rplayers rm1) pid = Some (p\<lparr>reconnectTimer := Some (nextTimer rm)\<rparr>)"
    using assms(2) by (simp add: rm1 updatePlayer_def map_of_update)
  define rm2 where "rm2 = snd (reconnectPlayer pid w rm1)"
  have rc: "fst (reconnectPlayer pid w rm1) = True"
    using p1 by (simp add: reconnectPlayer_def Let_def)
  have g2: "game rm2 = setConnected pid True (game rm1)"
    using p1 by (simp add: rm2_def reconnectPlayer_def Let_def updatePlayer_def clearTimeout_def)
  have t2: "timers rm2 = filter (\<lambda>(h', q). h' \<noteq> nextTimer rm) (timers rm1)"
    using p1 by (simp add: rm2_def reconnectPlayer_def Let_def updatePlayer_def clearTimeout_def)
  have c2: "map_of (timers rm2) (nextTimer rm) = None"
    unfolding t2 by (rule map_of_remove)
  have s2: "seats (game rm2) = seats (game rm)"
    by (simp add: g2 g1 seats_setConnected)
  have i2: "currentPlayerIndex (game rm2) = currentPlayerIndex (game rm)"
    by (simp add: g2 g1 setConnected_def)
  define rm3 where "rm3 = snd (graceTimerFires (nextTimer rm) rm1)"
  have f3: "fst (graceTimerFires (nextTimer rm) rm1) = True
       \<and> map_of (rplayers rm3) pid = None \<and> game rm3 = game rm1"
    unfolding rm3_def using pend ph1 by (rule graceTimerFires_pending)
  have s3: "seats (game rm3) = seats (game rm)"
    using f3 by (simp add: g1 seats_setConnected)
  have i3: "currentPlayerIndex (game rm3) = currentPlayerIndex (game rm)"
    using f3 by (simp add: g1 setConnected_def)
  show ?thesis
    using hd pend rc s2 i2 c2 f3 s3 i3
    unfolding rm1_def rm2_def rm3_def
    by simp
qed

theorem reconnect_keeps_seat_and_timeout_keeps_session_witness:
  "phase (game demoRoom) = playing
   \<and> map_of (rplayers demoRoom) ''aki'' = Some \<lparr>rp_id = ''aki'', rp_name = ''Aki'', ws = 1, reconnectTimer = None\<rparr>
   \<and> map_of (timers demoRoom) (nextTimer demoRoom) = None
   \<and> fst (reconnectPlayer ''aki'' 3 (snd (handleDisconnect ''aki'' demoRoom))) = True
   \<and> seats (game (snd (reconnectPlayer ''aki'' 3 (snd (handleDisconnect ''aki'' demoRoom))))) = seats (game demoRoom)
   \<and> fst (graceTimerFires (nextTimer demoRoom) (snd (handleDisconnect ''aki'' demoRoom))) = True
   \<and> map_of (rplayers (snd (graceTimerFires (nextTimer demoRoom) (snd (handleDisconnect ''aki'' demoRoom))))) ''aki'' = None
   \<and> seats (game (snd (graceTimerFires (nextTimer demoRoom) (snd (handleDisconnect ''aki'' demoRoom))))) = seats (game demoRoom)"
proof -
  have a: "phase (game demoRoom) = playing"
    by code_simp
  have b: "map_of (rplayers demoRoom) ''aki'' = Some \<lparr>rp_id = ''aki'', rp_name = ''Aki'', ws = 1, reconnectTimer = None\<rparr>"
    by (simp add: demoRoom_def)
  have c: "map_of (timers demoRoom) (nextTimer demoRoom) = None"
    by (simp add: demoRoom_def)
  show ?thesis
    using a b c reconnect_keeps_seat_and_timeout_keeps_session [OF a b c, of 3] by simp
qed

end
